theory Spec2Isabelle
  imports Complex_Main "HOL-Library.Word"
begin

section \<open>FreeWill: tensors, layout descriptors, the cross-entropy kernel, the gradient check\<close>

text \<open>
  A shallow embedding of \<^verbatim>\<open>Tensor.h\<close>, \<^verbatim>\<open>GradientCheck.h\<close> and
  \<^verbatim>\<open>Operator/CrossEntropy_CUDA.cu\<close>.  \<^verbatim>\<open>unsigned int\<close> and \<^verbatim>\<open>int\<close> are 32-bit
  words (an \<^verbatim>\<open>int\<close> is the same bit pattern, read through \<open>sint\<close>); the element type
  \<^verbatim>\<open>DataType\<close> of a tensor is a type parameter; the scalars of the kernel and of the
  gradient check are real numbers, so rounding is not part of the model.  An access
  outside an array, a read of a slot never written and a null handle are values of the
  type \<open>error\<close>.
\<close>

subsection \<open>Errors and raw arrays\<close>

datatype error =
    OutOfRange nat nat
  | Uninitialised nat
  | NullHandle
  | Dangling nat
  | DivisionByZero
  | IntConversion

text \<open>
  An array obtained from \<^verbatim>\<open>new int[n]\<close>: \<open>n\<close> slots, none of them written yet.
  \<open>rd\<close> and \<open>wr\<close> are the checked forms of \<^verbatim>\<open>a[i]\<close> and \<^verbatim>\<open>a[i] = v\<close>;
  \<open>OutOfRange i n\<close> records the index and the length of the array.
\<close>

type_synonym 'a raw_array = "'a option list"

definition new_array :: "nat \<Rightarrow> 'a raw_array" where
  "new_array n = replicate n None"

definition rd :: "'a raw_array \<Rightarrow> nat \<Rightarrow> error + 'a" where
  "rd a i =
     (if i < length a
      then (case a ! i of None \<Rightarrow> Inl (Uninitialised i) | Some v \<Rightarrow> Inr v)
      else Inl (OutOfRange i (length a)))"

definition wr :: "'a raw_array \<Rightarrow> nat \<Rightarrow> 'a \<Rightarrow> error + 'a raw_array" where
  "wr a i v = (if i < length a then Inr (a[i := Some v]) else Inl (OutOfRange i (length a)))"

text \<open>The contents of an array all of whose slots were written.\<close>

fun contents :: "'a raw_array \<Rightarrow> error + 'a list" where
  "contents [] = Inr []"
| "contents (None # a) = Inl (Uninitialised 0)"
| "contents (Some v # a) = (case contents a of Inl e \<Rightarrow> Inl e | Inr vs \<Rightarrow> Inr (v # vs))"

subsection \<open>Shape\<close>

text \<open>
  Modelled from the spec: \<^verbatim>\<open>Shape\<close> (\<^verbatim>\<open>Shape.h\<close> is not among the sources).  A shape
  is the ordered sequence of its extents, which the constructor of \<^verbatim>\<open>Tensor\<close> takes as
  \<^verbatim>\<open>unsigned int\<close>; \<open>dimension\<close> is the length of the sequence and \<open>size\<close> the
  product of the extents, 0 for the empty sequence, in the \<^verbatim>\<open>unsigned int\<close> the callers
  store it in.
\<close>

type_synonym Shape = "32 word list"

definition dimension :: "Shape \<Rightarrow> nat" where
  "dimension s = length s"

definition size_of :: "Shape \<Rightarrow> 32 word" where
  "size_of s = (if s = [] then 0 else prod_list s)"

subsection \<open>The layout descriptor: \<^verbatim>\<open>Tensor::updateGPUTensorDescriptor\<close>\<close>

text \<open>
  One iteration of the loop over \<open>i\<close>, on the two arrays \<^verbatim>\<open>dimA\<close> and \<^verbatim>\<open>strideA\<close> of
  \<open>atLeastDims\<close> slots.  The indices \<^verbatim>\<open>atLeastDims - i - 1\<close> and \<^verbatim>\<open>atLeastDims - i\<close>
  are computed for \<open>i < atLeastDims\<close> only, so they are never negative; the product
  \<^verbatim>\<open>m_shape[i-1] * strideA[atLeastDims - i]\<close> is a 32-bit product.
\<close>

definition descriptorStep ::
  "Shape \<Rightarrow> nat \<Rightarrow> nat \<Rightarrow> 32 word raw_array \<times> 32 word raw_array
     \<Rightarrow> error + (32 word raw_array \<times> 32 word raw_array)" where
  "descriptorStep m_shape atLeastDims i st =
     (case st of (dimA, strideA) \<Rightarrow>
        if i < dimension m_shape
        then (case wr dimA (atLeastDims - i - 1) (m_shape ! i) of
                Inl e \<Rightarrow> Inl e
              | Inr dimA' \<Rightarrow>
                  if i = 0
                  then (case wr strideA (atLeastDims - 1) 1 of
                          Inl e \<Rightarrow> Inl e
                        | Inr strideA' \<Rightarrow> Inr (dimA', strideA'))
                  else (case rd strideA (atLeastDims - i) of
                          Inl e \<Rightarrow> Inl e
                        | Inr prev \<Rightarrow>
                            (case wr strideA (atLeastDims - 1 - i) (m_shape ! (i - 1) * prev) of
                               Inl e \<Rightarrow> Inl e
                             | Inr strideA' \<Rightarrow> Inr (dimA', strideA'))))
        else (case wr dimA (atLeastDims - i - 1) 1 of
                Inl e \<Rightarrow> Inl e
              | Inr dimA' \<Rightarrow>
                  (case rd strideA (atLeastDims - i) of
                     Inl e \<Rightarrow> Inl e
                   | Inr prev \<Rightarrow>
                       (case wr strideA (atLeastDims - 1 - i) prev of
                          Inl e \<Rightarrow> Inl e
                        | Inr strideA' \<Rightarrow> Inr (dimA', strideA')))))"

text \<open>The loop \<^verbatim>\<open>for (int i = 0; i < atLeastDims; ++i)\<close>, from the iteration \<open>i\<close> on.\<close>

function descriptorLoop ::
  "Shape \<Rightarrow> nat \<Rightarrow> nat \<Rightarrow> 32 word raw_array \<times> 32 word raw_array
     \<Rightarrow> error + (32 word raw_array \<times> 32 word raw_array)" where
  "descriptorLoop m_shape atLeastDims i st =
     (if i < atLeastDims
      then (case descriptorStep m_shape atLeastDims i st of
              Inl e \<Rightarrow> Inl e
            | Inr st' \<Rightarrow> descriptorLoop m_shape atLeastDims (Suc i) st')
      else Inr st)"
  by pat_completeness auto
termination
  by (relation "measure (\<lambda>(s, n, i, st). n - i)") auto

text \<open>
  What reaches \<^verbatim>\<open>cudnnSetTensorNdDescriptor\<close>: the number of dimensions and the two
  arrays, \<^verbatim>\<open>dimA\<close> and \<^verbatim>\<open>strideA\<close>.
\<close>

record descriptor =
  nbDims :: nat
  dimA :: "32 word list"
  strideA :: "32 word list"

definition descriptorArrays :: "Shape \<Rightarrow> error + descriptor" where
  "descriptorArrays m_shape =
     (let nbDims = dimension m_shape;
          atLeastDims = (if nbDims < 4 then 4 else nbDims)
      in case descriptorLoop m_shape atLeastDims 0 (new_array atLeastDims, new_array atLeastDims) of
           Inl e \<Rightarrow> Inl e
         | Inr (da, sa) \<Rightarrow>
             (case contents da of
                Inl e \<Rightarrow> Inl e
              | Inr ds \<Rightarrow>
                  (case contents sa of
                     Inl e \<Rightarrow> Inl e
                   | Inr ss \<Rightarrow> Inr \<lparr>nbDims = atLeastDims, dimA = ds, strideA = ss\<rparr>)))"

text \<open>
  The product \<open>d0 * ... * d(i-1)\<close> of the first \<open>i\<close> extents, over the integers.
\<close>

definition exactStride :: "Shape \<Rightarrow> nat \<Rightarrow> int" where
  "exactStride s i = prod_list (map uint (take i s))"

subsection \<open>ReferenceCountedBlob\<close>

datatype DeviceType = CPU_NAIVE | GPU_CUDA

text \<open>
  Modelled from the spec: \<^verbatim>\<open>ReferenceCountedBlob\<close> (\<^verbatim>\<open>ReferenceCountedBlob.h\<close> is not
  among the sources).  A storage region has a count of its owners, host contents and,
  for an accelerator target, a mirror.  A blob is a reference to a region of the store,
  or to none.  Copying a blob adds an owner and aliases the region; \<open>blob_clear\<close>
  gives up one owner's reference, and the region is released with its last owner.
  The region of \<open>n\<close> bytes is seen through the casts of \<^verbatim>\<open>Tensor\<close> as
  \<open>n div sizeof(DataType)\<close> elements; what a fresh region holds is whatever the
  allocator returned.
\<close>

record 'a region =
  owners :: nat
  hostData :: "'a list"
  gpuData :: "'a list option"

record 'a store =
  cells :: "nat \<Rightarrow> 'a region option"
  fresh :: nat

type_synonym blob = "nat option"

definition emptyStore :: "'a store" where
  "emptyStore = \<lparr>cells = (\<lambda>a. None), fresh = 0\<rparr>"

definition blob_acquire :: "'a store \<Rightarrow> blob \<Rightarrow> 'a store" where
  "blob_acquire h b =
     (case b of
        None \<Rightarrow> h
      | Some a \<Rightarrow>
          (case cells h a of
             None \<Rightarrow> h
           | Some r \<Rightarrow> h\<lparr>cells := (cells h)(a := Some (r\<lparr>owners := Suc (owners r)\<rparr>))\<rparr>))"

definition blob_release :: "'a store \<Rightarrow> blob \<Rightarrow> 'a store" where
  "blob_release h b =
     (case b of
        None \<Rightarrow> h
      | Some a \<Rightarrow>
          (case cells h a of
             None \<Rightarrow> h
           | Some r \<Rightarrow>
               if owners r \<le> 1
               then h\<lparr>cells := (cells h)(a := None)\<rparr>
               else h\<lparr>cells := (cells h)(a := Some (r\<lparr>owners := owners r - 1\<rparr>))\<rparr>))"

definition blob_clear :: "'a store \<Rightarrow> blob \<Rightarrow> 'a store \<times> blob" where
  "blob_clear h b = (blob_release h b, None)"

text \<open>
  \<open>alloc\<close> releases the storage held before, then fails when the size is 0 or when
  the system gives no memory (\<open>mem = None\<close>); otherwise \<open>mem = Some g\<close> and the fresh
  region holds \<open>g 0, g 1, ...\<close>, with one owner.
\<close>

definition blob_alloc ::
  "DeviceType \<Rightarrow> nat \<Rightarrow> (nat \<Rightarrow> 'a) option \<Rightarrow> 'a store \<Rightarrow> blob \<Rightarrow> nat
     \<Rightarrow> bool \<times> 'a store \<times> blob" where
  "blob_alloc dev elementSize mem h b sizeInByte =
     (let h0 = blob_release h b in
      if sizeInByte = 0 then (False, h0, None)
      else (case mem of
              None \<Rightarrow> (False, h0, None)
            | Some g \<Rightarrow>
                (let a = fresh h0;
                     xs = map g [0..<sizeInByte div elementSize];
                     r = \<lparr>owners = 1, hostData = xs,
                          gpuData = (if dev = GPU_CUDA then Some xs else None)\<rparr>
                 in (True, h0\<lparr>cells := (cells h0)(a := Some r), fresh := Suc a\<rparr>, Some a))))"

definition blob_copyFromHostToDevice :: "'a store \<Rightarrow> blob \<Rightarrow> 'a store" where
  "blob_copyFromHostToDevice h b =
     (case b of
        None \<Rightarrow> h
      | Some a \<Rightarrow>
          (case cells h a of
             None \<Rightarrow> h
           | Some r \<Rightarrow>
               (case gpuData r of
                  None \<Rightarrow> h
                | Some g \<Rightarrow> h\<lparr>cells := (cells h)(a := Some (r\<lparr>gpuData := Some (hostData r)\<rparr>))\<rparr>)))"

text \<open>
  \<^verbatim>\<open>dataHandle()\<close> followed by an access through the pointer: the host contents of the
  region the blob refers to, when there is one.
\<close>

definition dataHandle :: "'a store \<Rightarrow> blob \<Rightarrow> error + (nat \<times> 'a region)" where
  "dataHandle h b =
     (case b of
        None \<Rightarrow> Inl NullHandle
      | Some a \<Rightarrow> (case cells h a of None \<Rightarrow> Inl (Dangling a) | Some r \<Rightarrow> Inr (a, r)))"

subsection \<open>\<^verbatim>\<open>Tensor\<close>\<close>

text \<open>
  The descriptor handle of a tensor: created by the constructor of \<^verbatim>\<open>TensorBase\<close> and
  not yet set, or set from the arrays of \<open>descriptorArrays\<close>.  When the computation of
  the arrays reads outside them the values handed to \<^verbatim>\<open>cudnnSetTensorNdDescriptor\<close> are
  indeterminate: the descriptor is then \<open>Undefined\<close>, with the cause.
\<close>

datatype descriptor_state = Created | Described descriptor | Undefined error

record Tensor =
  m_shape :: Shape
  m_gpuTensorDescriptor :: descriptor_state
  m_data :: blob
  m_name :: string

definition updateGPUTensorDescriptor :: "DeviceType \<Rightarrow> Tensor \<Rightarrow> Tensor" where
  "updateGPUTensorDescriptor dev t =
     (if dev = GPU_CUDA
      then t\<lparr>m_gpuTensorDescriptor :=
               (case descriptorArrays (m_shape t) of
                  Inl e \<Rightarrow> Undefined e
                | Inr d \<Rightarrow> Described d)\<rparr>
      else t)"

text \<open>\<^verbatim>\<open>Tensor(shape, name)\<close>: no storage yet.\<close>

definition Tensor_new :: "Shape \<Rightarrow> string \<Rightarrow> Tensor" where
  "Tensor_new shape name =
     \<lparr>m_shape = shape, m_gpuTensorDescriptor = Created, m_data = None, m_name = name\<rparr>"

text \<open>
  \<^verbatim>\<open>Tensor(const Tensor &in)\<close>: the base constructor copies the blob and the shape and
  creates a descriptor; the body is empty.
\<close>

definition Tensor_copy :: "'a store \<Rightarrow> Tensor \<Rightarrow> 'a store \<times> Tensor" where
  "Tensor_copy h inT =
     (blob_acquire h (m_data inT),
      \<lparr>m_shape = m_shape inT, m_gpuTensorDescriptor = Created,
       m_data = m_data inT, m_name = m_name inT\<rparr>)"

text \<open>
  \<^verbatim>\<open>init()\<close>.  \<open>elementSize\<close> is \<^verbatim>\<open>sizeof(DataType)\<close>; the product
  \<^verbatim>\<open>size * sizeof(DataType)\<close> is taken in \<^verbatim>\<open>size_t\<close>, where it does not wrap.
\<close>

definition init ::
  "DeviceType \<Rightarrow> nat \<Rightarrow> (nat \<Rightarrow> 'a) option \<Rightarrow> 'a store \<Rightarrow> Tensor \<Rightarrow> bool \<times> 'a store \<times> Tensor" where
  "init dev elementSize mem h t =
     (let size = size_of (m_shape t);
          (result, h', data') =
             (if size \<noteq> 0
              then blob_alloc dev elementSize mem h (m_data t) (unat size * elementSize)
              else (False, h, m_data t));
          t' = t\<lparr>m_data := data'\<rparr>
      in (result, h', if dev = GPU_CUDA then updateGPUTensorDescriptor dev t' else t'))"

text \<open>
  \<^verbatim>\<open>std::copy\<close> of \<open>vs\<close> to the start of the host storage.
\<close>

definition copyToHost :: "'a store \<Rightarrow> blob \<Rightarrow> 'a list \<Rightarrow> error + 'a store" where
  "copyToHost h b vs =
     (case dataHandle h b of
        Inl e \<Rightarrow> Inl e
      | Inr (a, r) \<Rightarrow>
          if length vs \<le> length (hostData r)
          then Inr (h\<lparr>cells := (cells h)(a := Some (r\<lparr>hostData := vs @ drop (length vs) (hostData r)\<rparr>))\<rparr>)
          else Inl (OutOfRange (length (hostData r)) (length (hostData r))))"

text \<open>\<^verbatim>\<open>init(initList)\<close>.\<close>

definition init_list ::
  "DeviceType \<Rightarrow> nat \<Rightarrow> (nat \<Rightarrow> 'a) option \<Rightarrow> 'a list \<Rightarrow> 'a store \<Rightarrow> Tensor
     \<Rightarrow> error + (bool \<times> 'a store \<times> Tensor)" where
  "init_list dev elementSize mem initList h t =
     (case init dev elementSize mem h t of
        (ok, h1, t1) \<Rightarrow>
          if \<not> ok then Inr (False, h1, t1)
          else
            (let size = unat (size_of (m_shape t1));
                 n = (if length initList > size then size else length initList)
             in case copyToHost h1 (m_data t1) (take n initList) of
                  Inl e \<Rightarrow> Inl e
                | Inr h2 \<Rightarrow>
                    if dev = GPU_CUDA
                    then Inr (True, blob_copyFromHostToDevice h2 (m_data t1),
                              updateGPUTensorDescriptor dev t1)
                    else Inr (True, h2, t1)))"

text \<open>
  \<^verbatim>\<open>operator=\<close>: the shape, the name and the blob of \<open>inT\<close> (the blob gains an owner,
  the one held before loses one), then the descriptor.
\<close>

definition assign :: "DeviceType \<Rightarrow> 'a store \<Rightarrow> Tensor \<Rightarrow> Tensor \<Rightarrow> 'a store \<times> Tensor" where
  "assign dev h t inT =
     (blob_release (blob_acquire h (m_data inT)) (m_data t),
      updateGPUTensorDescriptor dev
        (t\<lparr>m_shape := m_shape inT, m_name := m_name inT, m_data := m_data inT\<rparr>))"

text \<open>
  \<^verbatim>\<open>operator[]\<close> returns a reference into the host storage; \<open>tensor_at\<close> reads through
  it and \<open>tensor_set\<close> writes through it.
\<close>

definition tensor_at :: "'a store \<Rightarrow> Tensor \<Rightarrow> nat \<Rightarrow> error + 'a" where
  "tensor_at h t i =
     (case dataHandle h (m_data t) of
        Inl e \<Rightarrow> Inl e
      | Inr (a, r) \<Rightarrow>
          if i < length (hostData r) then Inr (hostData r ! i)
          else Inl (OutOfRange i (length (hostData r))))"

definition tensor_set :: "'a store \<Rightarrow> Tensor \<Rightarrow> nat \<Rightarrow> 'a \<Rightarrow> error + 'a store" where
  "tensor_set h t i v =
     (case dataHandle h (m_data t) of
        Inl e \<Rightarrow> Inl e
      | Inr (a, r) \<Rightarrow>
          if i < length (hostData r)
          then Inr (h\<lparr>cells := (cells h)(a := Some (r\<lparr>hostData := (hostData r)[i := v]\<rparr>))\<rparr>)
          else Inl (OutOfRange i (length (hostData r))))"

text \<open>\<^verbatim>\<open>reshape\<close>.\<close>

definition reshape :: "DeviceType \<Rightarrow> Tensor \<Rightarrow> Shape \<Rightarrow> bool \<times> Tensor" where
  "reshape dev t newShape =
     (if size_of newShape = size_of (m_shape t)
      then (True, updateGPUTensorDescriptor dev (t\<lparr>m_shape := newShape\<rparr>))
      else (False, t))"

text \<open>\<^verbatim>\<open>TensorBase::clear\<close>.\<close>

definition clear :: "'a store \<Rightarrow> Tensor \<Rightarrow> 'a store \<times> Tensor" where
  "clear h t = (case blob_clear h (m_data t) of (h', b) \<Rightarrow> (h', t\<lparr>m_data := b\<rparr>))"

subsection \<open>The cross-entropy kernel: \<^verbatim>\<open>crossEntropy\<close> and \<^verbatim>\<open>crossEntropyCUDAKernel\<close>\<close>

text \<open>
  A thread is its \<^verbatim>\<open>blockIdx.x\<close> and its \<^verbatim>\<open>threadIdx.x\<close>.  The three buffers are lists
  of reals; an access outside a buffer is an error.  In \<^verbatim>\<open>id % labelSize\<close> and
  \<^verbatim>\<open>id / labelSize\<close> the \<^verbatim>\<open>int\<close> \<open>id\<close> is converted to \<^verbatim>\<open>unsigned int\<close>, and so is
  the index \<^verbatim>\<open>batchId * labelSize + idInVector\<close>; in \<^verbatim>\<open>cost + batchId\<close> the offset is
  the \<^verbatim>\<open>int\<close> \<open>batchId\<close>.  The body of one thread, with its \<^verbatim>\<open>atomicAdd\<close>:
\<close>

type_synonym thread = "32 word \<times> 32 word"

definition crossEntropy ::
  "real list \<Rightarrow> real list \<Rightarrow> 32 word \<Rightarrow> 32 word \<Rightarrow> 32 word \<Rightarrow> thread \<Rightarrow> real list
     \<Rightarrow> error + real list" where
  "crossEntropy input label labelSize batchSize blockDim th cost =
     (case th of (blockIdx, threadIdx) \<Rightarrow>
        let id = blockIdx * blockDim + threadIdx in
        if labelSize = 0 then Inl DivisionByZero
        else
          let idInVector = id mod labelSize;
              batchId = id div labelSize;
              p = unat (batchId * labelSize + idInVector)
          in if \<not> p < length label then Inl (OutOfRange p (length label))
             else if \<not> p < length input then Inl (OutOfRange p (length input))
             else
               let temp = - (label ! p) * ln (input ! p) - (1 - label ! p) * ln (1 - input ! p);
                   b = sint batchId
               in if b < 0 \<or> \<not> nat b < length cost
                  then Inl (OutOfRange (unat batchId) (length cost))
                  else Inr (cost[nat b := cost ! nat b + temp]))"

text \<open>
  The threads of a launch \<^verbatim>\<open><<<gridSize, blockSize>>>\<close>, block by block.  Each thread
  changes \<open>cost\<close> in one atomic addition, so a run of the launch is the run of its
  threads one after the other in some order: a schedule, which lists every thread once.
\<close>

definition threadsOf :: "nat \<Rightarrow> nat \<Rightarrow> thread list" where
  "threadsOf gridSize blockSize =
     concat (map (\<lambda>b. map (\<lambda>t. (of_nat b, of_nat t)) [0..<blockSize]) [0..<gridSize])"

fun launch :: "(thread \<Rightarrow> real list \<Rightarrow> error + real list) \<Rightarrow> thread list \<Rightarrow> real list
     \<Rightarrow> error + real list" where
  "launch k [] cost = Inr cost"
| "launch k (th # ths) cost =
     (case k th cost of Inl e \<Rightarrow> Inl e | Inr cost' \<Rightarrow> launch k ths cost')"

text \<open>\<^verbatim>\<open>cudaMemset(cost, 0, sizeof(DataType) * batchSize)\<close>.\<close>

definition cudaMemset :: "real list \<Rightarrow> nat \<Rightarrow> error + real list" where
  "cudaMemset cost n =
     (if n \<le> length cost then Inr (replicate n 0 @ drop n cost)
      else Inl (OutOfRange (length cost) (length cost)))"

text \<open>
  The host function: the grid of the launch, and the run of the launch under the
  scheduler \<open>order\<close>, which rearranges the threads of the grid.
\<close>

definition gridSizeOf :: "32 word \<Rightarrow> 32 word \<Rightarrow> 32 word" where
  "gridSizeOf labelSize batchSize =
     (let blockSize = 1024;
          gridSize = (labelSize * batchSize) div blockSize
      in if (labelSize * batchSize) mod blockSize \<noteq> 0 then gridSize + 1 else gridSize)"

definition crossEntropyCUDAKernel ::
  "(thread list \<Rightarrow> thread list) \<Rightarrow> real list \<Rightarrow> real list \<Rightarrow> real list \<Rightarrow> 32 word \<Rightarrow> 32 word
     \<Rightarrow> error + real list" where
  "crossEntropyCUDAKernel order input label cost labelSize batchSize =
     (let blockSize = 1024;
          gridSize = gridSizeOf labelSize batchSize
      in case cudaMemset cost (unat batchSize) of
           Inl e \<Rightarrow> Inl e
         | Inr cost0 \<Rightarrow>
             launch (crossEntropy input label labelSize batchSize blockSize)
               (order (threadsOf (unat gridSize) (unat blockSize))) cost0)"

text \<open>
  What the specification asks of the kernel for the batch \<open>b\<close>: the sum of the binary
  cross-entropy terms of the positions \<open>b * labelVectorSize + j\<close>.
\<close>

definition costOfBatch :: "real list \<Rightarrow> real list \<Rightarrow> nat \<Rightarrow> nat \<Rightarrow> real" where
  "costOfBatch input label labelVectorSize b =
     (\<Sum>j \<leftarrow> [0..<labelVectorSize].
        - (label ! (b * labelVectorSize + j)) * ln (input ! (b * labelVectorSize + j))
        - (1 - label ! (b * labelVectorSize + j)) * ln (1 - input ! (b * labelVectorSize + j)))"

subsection \<open>The gradient check: \<^verbatim>\<open>gradientCheck\<close>\<close>

text \<open>
  The function under test returns its value and writes its gradient: a pair.

  The relative difference is computed as
  \<^verbatim>\<open>abs(numgrad - g) / std::max(1, std::max(abs(numgrad), abs(g)))\<close>, with the unqualified
  \<^verbatim>\<open>abs\<close>.  \<^verbatim>\<open>std::max\<close> takes two arguments of one type and its first argument here is
  the \<^verbatim>\<open>int\<close> 1, so the call is well-typed only when the inner maximum is an \<^verbatim>\<open>int\<close>,
  which is when \<^verbatim>\<open>abs\<close> is the \<^verbatim>\<open>int abs(int)\<close> of the C library.  The three scalars are
  then converted to \<^verbatim>\<open>int\<close>, which truncates towards zero and is defined only inside the
  range of \<^verbatim>\<open>int\<close>, and the quotient is a quotient of two \<^verbatim>\<open>int\<close>s.
\<close>

type_synonym func = "real list \<Rightarrow> real \<times> real list"

definition c_abs :: "real \<Rightarrow> error + int" where
  "c_abs r =
     (let n = (if 0 \<le> r then \<lfloor>r\<rfloor> else \<lceil>r\<rceil>)
      in if - (2 ^ 31) < n \<and> n < 2 ^ 31 then Inr \<bar>n\<bar> else Inl IntConversion)"

definition reldiffOf :: "real \<Rightarrow> real \<Rightarrow> error + real" where
  "reldiffOf numgrad g =
     (case c_abs (numgrad - g) of
        Inl e \<Rightarrow> Inl e
      | Inr a \<Rightarrow>
          (case c_abs numgrad of
             Inl e \<Rightarrow> Inl e
           | Inr b \<Rightarrow>
               (case c_abs g of
                  Inl e \<Rightarrow> Inl e
                | Inr c \<Rightarrow> Inr (of_int (a div max 1 (max b c))))))"

text \<open>
  The loop over the coordinates, from the coordinate \<open>i\<close> on, with the two work
  vectors \<open>x_1\<close> and \<open>x_2\<close>.  A step of 0 gives no quotient.
\<close>

function gradientLoop ::
  "func \<Rightarrow> real list \<Rightarrow> real \<Rightarrow> real list \<Rightarrow> nat \<Rightarrow> real list \<times> real list \<Rightarrow> error + bool" where
  "gradientLoop f x epsilon gradientAtX i w =
     (case w of (x_1, x_2) \<Rightarrow>
        if i < length x
        then
          (let x_1' = x_1[i := x ! i - epsilon];
               x_2' = x_2[i := x ! i + epsilon];
               valueAtX1 = fst (f x_1');
               valueAtX2 = fst (f x_2')
           in if epsilon = 0 then Inl DivisionByZero
              else
                (let numgrad = (valueAtX2 - valueAtX1) / (2 * epsilon)
                 in if \<not> i < length gradientAtX then Inl (OutOfRange i (length gradientAtX))
                    else
                      (case reldiffOf numgrad (gradientAtX ! i) of
                         Inl e \<Rightarrow> Inl e
                       | Inr reldiff \<Rightarrow>
                           if reldiff > epsilon * (1 / 10) then Inr False
                           else gradientLoop f x epsilon gradientAtX (Suc i)
                                  (x_1'[i := x ! i], x_2'[i := x ! i]))))
        else Inr True)"
  by pat_completeness auto
termination
  by (relation "measure (\<lambda>(f, x, e, g, i, w). length x - i)") auto

definition gradientCheck :: "func \<Rightarrow> real list \<Rightarrow> real \<Rightarrow> error + bool" where
  "gradientCheck f x epsilon = gradientLoop f x epsilon (snd (f x)) 0 (x, x)"

text \<open>
  The check as the specification words it: every coordinate's relative error, a
  quotient of reals, is at most \<open>epsilon * 0.1\<close>.
\<close>

definition numericGradient :: "func \<Rightarrow> real list \<Rightarrow> real \<Rightarrow> nat \<Rightarrow> real" where
  "numericGradient f x epsilon i =
     (fst (f (x[i := x ! i + epsilon])) - fst (f (x[i := x ! i - epsilon]))) / (2 * epsilon)"

definition relativeError :: "real \<Rightarrow> real \<Rightarrow> real" where
  "relativeError n a = \<bar>n - a\<bar> / max 1 (max \<bar>n\<bar> \<bar>a\<bar>)"

definition gradientCheck_spec :: "func \<Rightarrow> real list \<Rightarrow> real \<Rightarrow> bool" where
  "gradientCheck_spec f x epsilon =
     list_all (\<lambda>i. relativeError (numericGradient f x epsilon i) (snd (f x) ! i) \<le> epsilon * (1 / 10))
       [0..<length x]"

text \<open>
  The square of the first coordinate, with the gradient \<open>x0\<close> in place of \<open>2 * x0\<close>,
  and with the right one.
\<close>

definition squareWrong :: func where
  "squareWrong x = ((x ! 0) ^ 2, [x ! 0])"

definition square :: func where
  "square x = ((x ! 0) ^ 2, [2 * x ! 0])"

subsection \<open>The state of the descriptor loop after \<open>i\<close> iterations\<close>

text \<open>
  The extent and the stride the loop writes for the position \<open>k\<close> (a dimension of the
  shape, or a padded slot), and the two arrays when \<open>i\<close> positions are written: the
  slots of the positions \<open>0 .. i - 1\<close> are the last \<open>i\<close> slots, in reversed order.
\<close>

definition extentAt :: "Shape \<Rightarrow> nat \<Rightarrow> 32 word" where
  "extentAt s k = (if k < length s then s ! k else 1)"

definition strideAt :: "Shape \<Rightarrow> nat \<Rightarrow> 32 word" where
  "strideAt s k = prod_list (take (min k (length s - 1)) s)"

definition loopState :: "Shape \<Rightarrow> nat \<Rightarrow> nat \<Rightarrow> 32 word raw_array \<times> 32 word raw_array" where
  "loopState s L i =
     (replicate (L - i) None @ rev (map (\<lambda>k. Some (extentAt s k)) [0..<i]),
      replicate (L - i) None @ rev (map (\<lambda>k. Some (strideAt s k)) [0..<i]))"

subsection \<open>The threads of the kernel by their indices\<close>

text \<open>
  The term of the position \<open>p\<close>, the index \<open>id\<close> of a thread of blocks of 1024
  threads, and the addition of the thread of index \<open>p\<close> to its slot of \<open>cost\<close>.
\<close>

definition termAt :: "real list \<Rightarrow> real list \<Rightarrow> nat \<Rightarrow> real" where
  "termAt input label p = - (label ! p) * ln (input ! p) - (1 - label ! p) * ln (1 - input ! p)"

definition idOf :: "thread \<Rightarrow> nat" where
  "idOf th = unat (fst th * 1024 + snd th)"

definition accumulate :: "real list \<Rightarrow> real list \<Rightarrow> nat \<Rightarrow> nat \<Rightarrow> real list \<Rightarrow> real list" where
  "accumulate input label labelVectorSize p cost =
     cost[p div labelVectorSize := cost ! (p div labelVectorSize) + termAt input label p]"

section \<open>Properties of the layout descriptor\<close>

lemma wr_front:
  assumes "i < L"
  shows "wr (replicate (L - i) None @ xs) (L - Suc i) v = Inr (replicate (L - Suc i) None @ Some v # xs)"
proof -
  from assms obtain m where m: "L - i = Suc m"
    by (cases "L - i") auto
  then have m2: "L - Suc i = m"
    by simp
  have r: "replicate (Suc m) (None :: 'a option) = replicate m None @ [None]"
    by (simp add: replicate_append_same)
  have "((replicate m None @ [None]) @ xs)[m := Some v] = replicate m None @ Some v # xs"
    using list_update_length [of "replicate m None" None xs "Some v"] by simp
  then show ?thesis
    using m m2 r by (simp add: wr_def del: replicate_Suc)
qed

lemma rd_front: "rd (replicate m None @ Some v # xs) m = Inr v"
  by (simp add: rd_def nth_append)

lemma strideAt_step:
  assumes "0 < i" "i < length s"
  shows "s ! (i - 1) * strideAt s (i - 1) = strideAt s i"
proof -
  from assms obtain j where j: "i = Suc j"
    by (cases i) auto
  have t: "take (Suc j) s = take j s @ [s ! j]"
    using assms j by (simp add: take_Suc_conv_app_nth)
  have "min (Suc j) (length s - 1) = Suc j" and "min j (length s - 1) = j"
    using assms j by auto
  then show ?thesis
    unfolding strideAt_def j using t by (simp add: mult.commute)
qed

lemma strideAt_pad:
  assumes "s \<noteq> []" "length s \<le> i"
  shows "strideAt s (i - 1) = strideAt s i"
proof -
  have "0 < length s"
    using assms by simp
  then have "min (i - 1) (length s - 1) = length s - 1" "min i (length s - 1) = length s - 1"
    using assms by auto
  then show ?thesis
    by (simp add: strideAt_def)
qed

lemma descriptorStep_later:
  assumes "i < L" "0 < i"
  shows "descriptorStep s L i (replicate (L - i) None @ ds, replicate (L - i) None @ Some p # ss) =
         Inr (replicate (L - Suc i) None @ Some (extentAt s i) # ds,
              replicate (L - Suc i) None @
                Some (if i < length s then s ! (i - 1) * p else p) # Some p # ss)"
proof -
  have "L - 1 - i = L - Suc i"
    by simp
  then show ?thesis
    using assms by (simp add: descriptorStep_def dimension_def wr_front rd_front extentAt_def)
qed

lemma descriptorStep_first:
  assumes "0 < L" "s \<noteq> []"
  shows "descriptorStep s L 0 (replicate L None, replicate L None) =
         Inr (replicate (L - Suc 0) None @ [Some (extentAt s 0)], replicate (L - Suc 0) None @ [Some 1])"
proof -
  have w: "wr (replicate L None) (L - Suc 0) v = Inr (replicate (L - Suc 0) None @ [Some v])"
    for v :: "32 word"
    using wr_front [of 0 L "[]" v] assms by simp
  show ?thesis
    using assms by (simp add: descriptorStep_def dimension_def extentAt_def w)
qed

lemma loopState_Suc:
  "loopState s L (Suc i) =
     (replicate (L - Suc i) None @ Some (extentAt s i) # rev (map (\<lambda>k. Some (extentAt s k)) [0..<i]),
      replicate (L - Suc i) None @ Some (strideAt s i) # rev (map (\<lambda>k. Some (strideAt s k)) [0..<i]))"
  by (simp add: loopState_def)

lemma descriptorStep_loopState:
  assumes "s \<noteq> []" "i < L"
  shows "descriptorStep s L i (loopState s L i) = Inr (loopState s L (Suc i))"
proof (cases i)
  case 0
  have "strideAt s 0 = 1"
    by (simp add: strideAt_def)
  then show ?thesis
    using descriptorStep_first [of L s] assms 0 by (simp add: loopState_def)
next
  case (Suc j)
  have st: "(if i < length s then s ! (i - 1) * strideAt s j else strideAt s j) = strideAt s i"
    using strideAt_step [of i s] strideAt_pad [of s i] assms Suc by auto
  have "descriptorStep s L i (loopState s L i) =
        descriptorStep s L i
          (replicate (L - i) None @ rev (map (\<lambda>k. Some (extentAt s k)) [0..<i]),
           replicate (L - i) None @ Some (strideAt s j) # rev (map (\<lambda>k. Some (strideAt s k)) [0..<j]))"
    unfolding Suc loopState_Suc by simp
  also have "\<dots> =
        Inr (replicate (L - Suc i) None @ Some (extentAt s i) # rev (map (\<lambda>k. Some (extentAt s k)) [0..<i]),
             replicate (L - Suc i) None @
               Some (strideAt s i) # Some (strideAt s j) # rev (map (\<lambda>k. Some (strideAt s k)) [0..<j]))"
    using descriptorStep_later [OF assms(2), of s _ "strideAt s j"] Suc st by simp
  also have "\<dots> = Inr (loopState s L (Suc i))"
    unfolding Suc by (simp add: loopState_def)
  finally show ?thesis .
qed

lemma descriptorLoop_loopState:
  "s \<noteq> [] \<Longrightarrow> i \<le> L \<Longrightarrow> descriptorLoop s L i (loopState s L i) = Inr (loopState s L L)"
proof (induction "L - i" arbitrary: i)
  case 0
  then show ?case by simp
next
  case (Suc n)
  then have "i < L"
    by simp
  moreover have "descriptorLoop s L (Suc i) (loopState s L (Suc i)) = Inr (loopState s L L)"
    using Suc by simp
  ultimately show ?case
    using descriptorStep_loopState [of s i L] Suc.prems(1)
    by (subst descriptorLoop.simps) simp
qed

lemma contents_map_Some: "contents (map Some xs) = Inr xs"
  by (induction xs) auto

lemma descriptorArrays_closed_form:
  assumes "s \<noteq> []"
  shows "descriptorArrays s =
    Inr \<lparr>nbDims = max (length s) 4,
         dimA = rev (map (extentAt s) [0..<max (length s) 4]),
         strideA = rev (map (strideAt s) [0..<max (length s) 4])\<rparr>"
proof -
  let ?L = "max (length s) 4"
  have L: "(if length s < 4 then 4 else length s) = ?L"
    by simp
  have start: "(new_array ?L, new_array ?L) = loopState s ?L 0"
    by (simp add: loopState_def new_array_def)
  have fin: "loopState s ?L ?L =
      (map Some (rev (map (extentAt s) [0..<?L])), map Some (rev (map (strideAt s) [0..<?L])))"
    by (simp add: loopState_def rev_map)
  have "descriptorLoop s ?L 0 (new_array ?L, new_array ?L) = Inr (loopState s ?L ?L)"
    unfolding start using descriptorLoop_loopState [of s 0 ?L] assms by simp
  then show ?thesis
    unfolding descriptorArrays_def dimension_def Let_def L fin
    by (simp add: contents_map_Some)
qed

lemma descriptorArrays_empty: "descriptorArrays [] = Inl (OutOfRange 4 4)"
  by (simp add: descriptorArrays_def dimension_def descriptorStep_def new_array_def wr_def rd_def)

lemma prod_list_word_of_int: "(prod_list xs :: 32 word) = word_of_int (prod_list (map uint xs))"
  by (induction xs) (simp_all add: word_of_int_hom_syms)

lemma prod_list_uint_nonneg: "0 \<le> prod_list (map uint xs)"
  by (induction xs) simp_all

lemma exactStride_nonneg: "0 \<le> exactStride s i"
  unfolding exactStride_def by (rule prod_list_uint_nonneg)

lemma rev_map_upt_nth:
  assumes "i < L"
  shows "rev (map f [0..<L]) ! (L - 1 - i) = f i"
proof -
  have "L - 1 - i < L"
    using assms by simp
  then have "rev (map f [0..<L]) ! (L - 1 - i) = map f [0..<L] ! (L - Suc (L - 1 - i))"
    by (simp add: rev_nth)
  also have "L - Suc (L - 1 - i) = i"
    using assms by simp
  finally show ?thesis
    using assms by simp
qed

lemma strideAt_exact:
  assumes "i < length s"
  shows "strideAt s i = word_of_int (exactStride s i)"
proof -
  have "min i (length s - 1) = i"
    using assms by simp
  then show ?thesis
    by (simp add: strideAt_def exactStride_def prod_list_word_of_int)
qed

lemma sint_exact:
  assumes "0 \<le> k" "k < 2 ^ 31"
  shows "sint (word_of_int k :: 32 word) = k"
  using assms by (simp add: sint_sbintrunc' signed_take_bit_int_eq_self)

text \<open>
  C10.  For the empty shape the first iteration of the loop fills a padded slot and reads
  \<^verbatim>\<open>strideA[atLeastDims]\<close>, the index 4 of an array of 4 slots; the arrays of the
  descriptor are defined exactly for the shapes with at least one dimension.
\<close>

theorem descriptor_of_empty_shape_reads_out_of_range:
  "rd (new_array 4 :: 32 word raw_array) 4 = Inl (OutOfRange 4 4)
   \<and> descriptorStep [] 4 0 (new_array 4, new_array 4) = Inl (OutOfRange 4 4)
   \<and> descriptorArrays [] = Inl (OutOfRange 4 4)
   \<and> (\<forall>s. (\<exists>d. descriptorArrays s = Inr d) = (s \<noteq> []))"
proof -
  have "(\<exists>d. descriptorArrays s = Inr d) = (s \<noteq> [])" for s
  proof (cases "s = []")
    case True
    then show ?thesis by (simp add: descriptorArrays_empty)
  next
    case False
    then show ?thesis using descriptorArrays_closed_form [of s] by simp
  qed
  moreover have "rd (new_array 4 :: 32 word raw_array) 4 = Inl (OutOfRange 4 4)"
    by (simp add: rd_def new_array_def)
  moreover have "descriptorStep [] 4 0 (new_array 4, new_array 4) = Inl (OutOfRange 4 4)"
    by (simp add: descriptorStep_def dimension_def new_array_def wr_def rd_def)
  ultimately show ?thesis
    using descriptorArrays_empty by blast
qed

text \<open>
  C4, as amended.  For a shape of \<open>n \<ge> 1\<close> dimensions the descriptor has \<open>max n 4\<close>
  dimensions, stored slowest-varying first: the slot \<open>nbDims - 1 - i\<close> holds the extent
  of the dimension \<open>i\<close> and its stride, which is the product of the extents before it
  taken modulo \<open>2^32\<close>, and is that product itself when it is below \<open>2^31\<close>; every padded
  slot holds the extent 1 and the stride of the dimension \<open>n - 1\<close>.
\<close>

theorem descriptor_layout:
  assumes "s \<noteq> []"
  shows "\<exists>d. descriptorArrays s = Inr d
     \<and> nbDims d = max (length s) 4
     \<and> length (dimA d) = nbDims d \<and> length (strideA d) = nbDims d
     \<and> (\<forall>i < length s.
           dimA d ! (nbDims d - 1 - i) = s ! i
         \<and> strideA d ! (nbDims d - 1 - i) = word_of_int (exactStride s i)
         \<and> (exactStride s i < 2 ^ 31 \<longrightarrow> sint (strideA d ! (nbDims d - 1 - i)) = exactStride s i))
     \<and> (\<forall>i. length s \<le> i \<and> i < nbDims d \<longrightarrow>
           dimA d ! (nbDims d - 1 - i) = 1
         \<and> strideA d ! (nbDims d - 1 - i) = strideA d ! (nbDims d - 1 - (length s - 1)))"
proof -
  let ?L = "max (length s) 4"
  let ?d = "\<lparr>nbDims = ?L, dimA = rev (map (extentAt s) [0..<?L]),
             strideA = rev (map (strideAt s) [0..<?L])\<rparr>"
  have d: "descriptorArrays s = Inr ?d"
    using assms by (rule descriptorArrays_closed_form)
  have n: "0 < length s"
    using assms by simp
  have real_dim: "dimA ?d ! (nbDims ?d - 1 - i) = s ! i
       \<and> strideA ?d ! (nbDims ?d - 1 - i) = word_of_int (exactStride s i)
       \<and> (exactStride s i < 2 ^ 31 \<longrightarrow> sint (strideA ?d ! (nbDims ?d - 1 - i)) = exactStride s i)"
    if "i < length s" for i
  proof -
    have iL: "i < ?L"
      using that by simp
    have e: "dimA ?d ! (nbDims ?d - 1 - i) = s ! i"
      using rev_map_upt_nth [OF iL, of "extentAt s"] that by (simp add: extentAt_def)
    have st: "strideA ?d ! (nbDims ?d - 1 - i) = word_of_int (exactStride s i)"
      using rev_map_upt_nth [OF iL, of "strideAt s"] strideAt_exact [OF that] by simp
    show ?thesis
      using e st sint_exact [OF exactStride_nonneg, of s i] by simp
  qed
  have padded: "dimA ?d ! (nbDims ?d - 1 - i) = 1
       \<and> strideA ?d ! (nbDims ?d - 1 - i) = strideA ?d ! (nbDims ?d - 1 - (length s - 1))"
    if "length s \<le> i \<and> i < nbDims ?d" for i
  proof -
    have iL: "i < ?L" and nL: "length s - 1 < ?L"
      using that n by simp_all
    have "min i (length s - 1) = length s - 1"
      using that n by auto
    then have "strideAt s i = strideAt s (length s - 1)"
      by (simp add: strideAt_def)
    then show ?thesis
      using rev_map_upt_nth [OF iL, of "extentAt s"] rev_map_upt_nth [OF iL, of "strideAt s"]
        rev_map_upt_nth [OF nL, of "strideAt s"] that
      by (simp add: extentAt_def)
  qed
  show ?thesis
  proof (intro exI [of _ ?d] conjI)
    show "descriptorArrays s = Inr ?d"
      by (rule d)
    show "nbDims ?d = max (length s) 4" "length (dimA ?d) = nbDims ?d"
      "length (strideA ?d) = nbDims ?d"
      by simp_all
    show "\<forall>i < length s.
           dimA ?d ! (nbDims ?d - 1 - i) = s ! i
         \<and> strideA ?d ! (nbDims ?d - 1 - i) = word_of_int (exactStride s i)
         \<and> (exactStride s i < 2 ^ 31 \<longrightarrow> sint (strideA ?d ! (nbDims ?d - 1 - i)) = exactStride s i)"
      using real_dim by blast
    show "\<forall>i. length s \<le> i \<and> i < nbDims ?d \<longrightarrow>
           dimA ?d ! (nbDims ?d - 1 - i) = 1
         \<and> strideA ?d ! (nbDims ?d - 1 - i) = strideA ?d ! (nbDims ?d - 1 - (length s - 1))"
      using padded by blast
  qed
qed

theorem descriptor_layout_witness:
  "\<exists>d. descriptorArrays [2, 3] = Inr d \<and> nbDims d = 4
     \<and> dimA d ! 3 = 2 \<and> strideA d ! 3 = 1 \<and> dimA d ! 2 = 3 \<and> sint (strideA d ! 2) = 2
     \<and> dimA d ! 1 = 1 \<and> strideA d ! 1 = strideA d ! 2
     \<and> dimA d ! 0 = 1 \<and> strideA d ! 0 = strideA d ! 2"
proof -
  have ne: "[2, 3 :: 32 word] \<noteq> []"
    by simp
  from descriptor_layout [OF ne] obtain d where d: "descriptorArrays [2, 3] = Inr d"
    and n: "nbDims d = max (length [2, 3 :: 32 word]) 4"
    and r: "\<forall>i < length [2, 3 :: 32 word].
           dimA d ! (nbDims d - 1 - i) = [2, 3] ! i
         \<and> strideA d ! (nbDims d - 1 - i) = word_of_int (exactStride [2, 3] i)
         \<and> (exactStride [2, 3] i < 2 ^ 31 \<longrightarrow> sint (strideA d ! (nbDims d - 1 - i)) = exactStride [2, 3] i)"
    and p: "\<forall>i. length [2, 3 :: 32 word] \<le> i \<and> i < nbDims d \<longrightarrow>
           dimA d ! (nbDims d - 1 - i) = 1
         \<and> strideA d ! (nbDims d - 1 - i) = strideA d ! (nbDims d - 1 - (length [2, 3 :: 32 word] - 1))"
    by blast
  have n4: "nbDims d = 4"
    using n by simp
  have "dimA d ! 3 = 2 \<and> strideA d ! 3 = 1"
    using r [rule_format, of 0] n4 by (simp add: exactStride_def)
  moreover have "dimA d ! 2 = 3 \<and> sint (strideA d ! 2) = 2"
    using r [rule_format, of 1] n4 by (simp add: exactStride_def)
  moreover have "dimA d ! 1 = 1 \<and> strideA d ! 1 = strideA d ! 2"
    using p [rule_format, of 2] n4 by simp
  moreover have "dimA d ! 0 = 1 \<and> strideA d ! 0 = strideA d ! 2"
    using p [rule_format, of 3] n4 by simp
  ultimately show ?thesis
    using d n4 by blast
qed

theorem descriptor_stride_wraps_counterexample:
  "\<exists>d. descriptorArrays [65536, 65536, 2] = Inr d
     \<and> strideA d = [0, 0, 65536, 1]
     \<and> exactStride [65536, 65536, 2] 2 = 4294967296
     \<and> sint (strideA d ! (nbDims d - 1 - 2)) \<noteq> exactStride [65536, 65536, 2] 2"
proof -
  have "descriptorArrays [65536, 65536, 2] =
        Inr \<lparr>nbDims = 4, dimA = [1, 2, 65536, 65536], strideA = [0, 0, 65536, 1]\<rparr>"
    by code_simp
  moreover have "exactStride [65536, 65536, 2] 2 = 4294967296"
    by (simp add: exactStride_def)
  ultimately show ?thesis
    by simp
qed

section \<open>Properties of the tensor\<close>

lemma updateGPUTensorDescriptor_fields:
  "m_shape (updateGPUTensorDescriptor dev t) = m_shape t"
  "m_data (updateGPUTensorDescriptor dev t) = m_data t"
  "m_name (updateGPUTensorDescriptor dev t) = m_name t"
  by (simp_all add: updateGPUTensorDescriptor_def)

lemma tensor_at_updateGPUTensorDescriptor:
  "tensor_at h (updateGPUTensorDescriptor dev t) i = tensor_at h t i"
  by (simp add: tensor_at_def updateGPUTensorDescriptor_fields)

text \<open>
  C6.  \<^verbatim>\<open>reshape(newShape)\<close> returns true exactly when the new shape has the size of the
  current one; when it returns false the tensor is unchanged, and reshaping back to the
  original shape then succeeds, with the storage and the name as they were.
\<close>

theorem reshape_succeeds_iff_same_size:
  "fst (reshape dev t newShape) = (size_of newShape = size_of (m_shape t))
   \<and> (\<not> fst (reshape dev t newShape) \<longrightarrow>
        snd (reshape dev t newShape) = t
      \<and> fst (reshape dev (snd (reshape dev t newShape)) (m_shape t))
      \<and> m_shape (snd (reshape dev (snd (reshape dev t newShape)) (m_shape t))) = m_shape t
      \<and> m_data (snd (reshape dev (snd (reshape dev t newShape)) (m_shape t))) = m_data t
      \<and> m_name (snd (reshape dev (snd (reshape dev t newShape)) (m_shape t))) = m_name t)"
  by (simp add: reshape_def updateGPUTensorDescriptor_fields)

theorem reshape_succeeds_iff_same_size_witness:
  "\<not> fst (reshape GPU_CUDA (Tensor_new [2, 3] ''t'') [7])
   \<and> snd (reshape GPU_CUDA (Tensor_new [2, 3] ''t'') [7]) = Tensor_new [2, 3] ''t''
   \<and> fst (reshape GPU_CUDA (snd (reshape GPU_CUDA (Tensor_new [2, 3] ''t'') [7]))
            (m_shape (Tensor_new [2, 3] ''t'')))
   \<and> fst (reshape GPU_CUDA (Tensor_new [2, 3] ''t'') [3, 2])"
proof -
  let ?t = "Tensor_new [2, 3] ''t''"
  have a: "size_of [7] \<noteq> size_of (m_shape ?t)"
    by (simp add: size_of_def Tensor_new_def)
  have b: "size_of [3, 2] = size_of (m_shape ?t)"
    by (simp add: size_of_def Tensor_new_def)
  have no: "\<not> fst (reshape GPU_CUDA ?t [7])"
    using reshape_succeeds_iff_same_size [of GPU_CUDA ?t "[7]"] a by blast
  then have "snd (reshape GPU_CUDA ?t [7]) = ?t"
    and "fst (reshape GPU_CUDA (snd (reshape GPU_CUDA ?t [7])) (m_shape ?t))"
    using reshape_succeeds_iff_same_size [of GPU_CUDA ?t "[7]"] by blast+
  moreover have "fst (reshape GPU_CUDA ?t [3, 2])"
    using reshape_succeeds_iff_same_size [of GPU_CUDA ?t "[3, 2]"] b by blast
  ultimately show ?thesis
    using no by blast
qed

text \<open>
  C8.  \<^verbatim>\<open>init()\<close> returns true exactly when the size of the shape is not 0 and the
  allocation of \<open>size * sizeof(DataType)\<close> bytes succeeds.
\<close>

theorem init_result:
  "fst (init dev elementSize mem h t) =
     (size_of (m_shape t) \<noteq> 0
      \<and> fst (blob_alloc dev elementSize mem h (m_data t) (unat (size_of (m_shape t)) * elementSize)))"
  by (simp add: init_def Let_def split: prod.splits)

lemma blob_alloc_result:
  "fst (blob_alloc dev elementSize mem h b n) = (n \<noteq> 0 \<and> mem \<noteq> None)"
  by (simp add: blob_alloc_def Let_def split: option.splits)

lemma init_shape:
  "m_shape (snd (snd (init dev elementSize mem h t))) = m_shape t"
  by (simp add: init_def Let_def updateGPUTensorDescriptor_fields split: prod.splits)

lemma init_success:
  assumes "size_of (m_shape t) \<noteq> 0" "0 < elementSize"
  shows "init dev elementSize (Some g) h t = (ok, h', t') \<Longrightarrow>
     ok \<and> m_shape t' = m_shape t
     \<and> (\<exists>a r. m_data t' = Some a \<and> cells h' a = Some r
            \<and> hostData r = map g [0..<unat (size_of (m_shape t))])"
  using assms
  by (auto simp: init_def blob_alloc_def Let_def updateGPUTensorDescriptor_fields unat_eq_0)

lemma init_failure_cases:
  assumes "0 < elementSize"
  shows "fst (init dev elementSize mem h t) = (size_of (m_shape t) \<noteq> 0 \<and> mem \<noteq> None)"
proof -
  have "fst (init dev elementSize mem h t) =
     (size_of (m_shape t) \<noteq> 0
      \<and> fst (blob_alloc dev elementSize mem h (m_data t) (unat (size_of (m_shape t)) * elementSize)))"
    by (simp add: init_def Let_def split: prod.splits)
  then show ?thesis
    using assms by (simp add: blob_alloc_result unat_eq_0)
qed

lemma copyToHost_region:
  assumes "m = Some a" "cells h a = Some r" "length vs \<le> length (hostData r)"
  shows "copyToHost h m vs =
     Inr (h\<lparr>cells := (cells h)(a := Some (r\<lparr>hostData := vs @ drop (length vs) (hostData r)\<rparr>))\<rparr>)"
  using assms by (simp add: copyToHost_def dataHandle_def)

lemma tensor_at_region:
  assumes "m_data t = Some a" "cells h a = Some r" "i < length (hostData r)"
  shows "tensor_at h t i = Inr (hostData r ! i)"
  using assms by (simp add: tensor_at_def dataHandle_def)

lemma blob_copyFromHostToDevice_host:
  assumes "cells h a = Some r"
  shows "\<exists>r'. cells (blob_copyFromHostToDevice h b) a = Some r' \<and> hostData r' = hostData r"
  using assms by (auto simp: blob_copyFromHostToDevice_def split: option.splits)

lemma init_list_after_init:
  assumes "init dev elementSize mem h t = (True, h1, t1)"
    and "unat (size_of (m_shape t1)) \<le> length initList"
  shows "init_list dev elementSize mem initList h t =
     (case copyToHost h1 (m_data t1) (take (unat (size_of (m_shape t1))) initList) of
        Inl e \<Rightarrow> Inl e
      | Inr h2 \<Rightarrow>
          if dev = GPU_CUDA
          then Inr (True, blob_copyFromHostToDevice h2 (m_data t1), updateGPUTensorDescriptor dev t1)
          else Inr (True, h2, t1))"
proof (cases "unat (size_of (m_shape t1)) < length initList")
  case True
  then show ?thesis
    using assms(1) by (simp add: init_list_def Let_def)
next
  case False
  then have "take (unat (size_of (m_shape t1))) initList = take (length initList) initList"
    using assms(2) by simp
  then show ?thesis
    using assms(1) False by (simp add: init_list_def Let_def)
qed

text \<open>
  C7, as amended.  With at least \<open>size()\<close> initList, \<^verbatim>\<open>init(initList)\<close> returns true exactly
  when the size of the shape is not 0 and the allocation succeeds; when it returns true
  the host storage holds the first \<open>size()\<close> initList and nothing of the initList beyond
  them, and reading the element \<open>i\<close> gives \<open>initList[i]\<close> for every \<open>i < size()\<close>.
\<close>

theorem init_list_reads_back:
  assumes "unat (size_of (m_shape t)) \<le> length initList" "0 < elementSize"
  shows "\<exists>ok h' t'. init_list dev elementSize mem initList h t = Inr (ok, h', t')
     \<and> ok = (size_of (m_shape t) \<noteq> 0 \<and> mem \<noteq> None)
     \<and> m_shape t' = m_shape t
     \<and> (ok \<longrightarrow>
          (\<exists>a r. m_data t' = Some a \<and> cells h' a = Some r
             \<and> hostData r = take (unat (size_of (m_shape t))) initList)
        \<and> (\<forall>i < unat (size_of (m_shape t)). tensor_at h' t' i = Inr (initList ! i)))"
proof -
  let ?n = "unat (size_of (m_shape t))"
  obtain ok h1 t1 where i: "init dev elementSize mem h t = (ok, h1, t1)"
    by (cases "init dev elementSize mem h t") auto
  have okv: "ok = (size_of (m_shape t) \<noteq> 0 \<and> mem \<noteq> None)"
    using init_failure_cases [OF assms(2), of dev mem h t] i by simp
  have sh: "m_shape t1 = m_shape t"
    using init_shape [of dev elementSize mem h t] i by simp
  show ?thesis
  proof (cases ok)
    case False
    then have "init_list dev elementSize mem initList h t = Inr (False, h1, t1)"
      using i by (simp add: init_list_def)
    then show ?thesis
      using False okv sh by auto
  next
    case True
    then obtain g where g: "mem = Some g" and nz: "size_of (m_shape t) \<noteq> 0"
      using okv by auto
    from init_success [OF nz assms(2), of dev g h ok h1 t1] i g
    obtain a r where a: "m_data t1 = Some a" and r: "cells h1 a = Some r"
      and hr: "hostData r = map g [0..<?n]"
      by auto
    define vs where "vs = take ?n initList"
    have len: "length vs = ?n"
      using assms(1) by (simp add: vs_def)
    define r2 where "r2 = r\<lparr>hostData := vs @ drop (length vs) (hostData r)\<rparr>"
    define h2 where "h2 = h1\<lparr>cells := (cells h1)(a := Some r2)\<rparr>"
    have c: "copyToHost h1 (m_data t1) vs = Inr h2"
      using copyToHost_region [OF a r, of vs] hr len by (simp add: h2_def r2_def)
    have host2: "hostData r2 = vs"
      using hr len by (simp add: r2_def)
    define h' where "h' = (if dev = GPU_CUDA then blob_copyFromHostToDevice h2 (m_data t1) else h2)"
    define t' where "t' = (if dev = GPU_CUDA then updateGPUTensorDescriptor dev t1 else t1)"
    have "init dev elementSize mem h t = (True, h1, t1)"
      using i True by simp
    moreover have "unat (size_of (m_shape t1)) \<le> length initList"
      using assms(1) sh by simp
    ultimately have res: "init_list dev elementSize mem initList h t = Inr (True, h', t')"
      using init_list_after_init [of dev elementSize mem h t h1 t1 initList] c sh
      by (simp add: vs_def [symmetric] h'_def t'_def)
    have t'a: "m_data t' = Some a" and t's: "m_shape t' = m_shape t"
      using a sh by (simp_all add: t'_def updateGPUTensorDescriptor_fields)
    have "cells h2 a = Some r2"
      by (simp add: h2_def)
    then obtain r' where r': "cells h' a = Some r'" and hr': "hostData r' = vs"
      using blob_copyFromHostToDevice_host [of h2 a r2 "m_data t1"] host2
      by (cases "dev = GPU_CUDA") (auto simp: h'_def)
    have rd: "tensor_at h' t' i = Inr (initList ! i)" if "i < ?n" for i
      using tensor_at_region [OF t'a r', of i] hr' len that by (simp add: vs_def)
    show ?thesis
      using res okv True t's t'a r' hr' rd by (auto simp: vs_def)
  qed
qed

theorem init_list_reads_back_witness:
  "\<exists>ok h' t'.
     init_list GPU_CUDA 4 (Some (\<lambda>i. 0)) [1, 2, 3, 4, 5, 6, 7 :: int] emptyStore (Tensor_new [2, 3] ''t'')
       = Inr (ok, h', t')
     \<and> ok \<and> tensor_at h' t' 0 = Inr 1 \<and> tensor_at h' t' 5 = Inr 6"
proof -
  let ?t = "Tensor_new [2, 3] ''t''"
  let ?vs = "[1, 2, 3, 4, 5, 6, 7 :: int]"
  have sz: "unat (size_of (m_shape ?t)) = 6"
    by (simp add: size_of_def Tensor_new_def)
  have nz: "size_of (m_shape ?t) \<noteq> 0"
    by (simp add: size_of_def Tensor_new_def)
  have le: "unat (size_of (m_shape ?t)) \<le> length ?vs"
    using sz by simp
  have pos: "0 < (4 :: nat)"
    by simp
  from init_list_reads_back [OF le pos, of GPU_CUDA "Some (\<lambda>i. 0)" emptyStore]
  obtain ok h' t' where
    r: "init_list GPU_CUDA 4 (Some (\<lambda>i. 0)) ?vs emptyStore ?t = Inr (ok, h', t')"
    and ok: "ok = (size_of (m_shape ?t) \<noteq> 0 \<and> Some (\<lambda>i::nat. 0::int) \<noteq> None)"
    and rd: "ok \<longrightarrow>
          (\<exists>a r. m_data t' = Some a \<and> cells h' a = Some r
             \<and> hostData r = take (unat (size_of (m_shape ?t))) ?vs)
        \<and> (\<forall>i < unat (size_of (m_shape ?t)). tensor_at h' t' i = Inr (?vs ! i))"
    by blast
  have ok': ok
    using ok nz by simp
  then have all: "\<forall>i < 6. tensor_at h' t' i = Inr (?vs ! i)"
    using rd sz by simp
  have "tensor_at h' t' 0 = Inr 1" "tensor_at h' t' 5 = Inr 6"
    using all [rule_format, of 0] all [rule_format, of 5] by simp_all
  then show ?thesis
    using r ok' by blast
qed

theorem init_list_fails_counterexample:
  "(\<exists>h' t'. init_list CPU_NAIVE 4 (Some (\<lambda>i. 0)) [1 :: int] emptyStore (Tensor_new [0] ''t'')
       = Inr (False, h', t'))
   \<and> unat (size_of (m_shape (Tensor_new [0] ''t''))) \<le> length [1 :: int]
   \<and> (\<exists>h' t'. init_list CPU_NAIVE 4 None [1, 2 :: int] emptyStore (Tensor_new [2] ''t'')
       = Inr (False, h', t'))
   \<and> unat (size_of (m_shape (Tensor_new [2] ''t''))) \<le> length [1, 2 :: int]"
  by (simp add: init_list_def init_def size_of_def Tensor_new_def blob_alloc_def emptyStore_def
      blob_release_def)

lemma tensor_set_region:
  assumes "m_data t = Some a" "cells h a = Some r" "i < length (hostData r)"
  shows "tensor_set h t i v =
     Inr (h\<lparr>cells := (cells h)(a := Some (r\<lparr>hostData := (hostData r)[i := v]\<rparr>))\<rparr>)"
  using assms by (simp add: tensor_set_def dataHandle_def)

text \<open>
  C9.  Let \<open>A\<close> own a region and let \<open>B\<close> be copy-constructed from \<open>A\<close>.  A write
  through \<open>A\<close> is read through \<open>B\<close>; after \<open>clear()\<close> on \<open>A\<close> the region is still
  there for \<open>B\<close>, with what was written, and \<open>B\<close> can still write to it.
\<close>

theorem copy_shares_storage:
  assumes "m_data A = Some a" "cells h a = Some r" "0 < owners r" "i < length (hostData r)"
  shows "\<exists>h1 B h2 h3 A'.
       Tensor_copy h A = (h1, B)
     \<and> tensor_at h1 B i = Inr (hostData r ! i)
     \<and> tensor_set h1 A i v = Inr h2
     \<and> tensor_at h2 B i = Inr v
     \<and> clear h2 A = (h3, A')
     \<and> m_data A' = None
     \<and> tensor_at h3 B i = Inr v
     \<and> (\<exists>h4. tensor_set h3 B i w = Inr h4 \<and> tensor_at h4 B i = Inr w)"
proof -
  define r1 where "r1 = r\<lparr>owners := Suc (owners r)\<rparr>"
  define h1 where "h1 = h\<lparr>cells := (cells h)(a := Some r1)\<rparr>"
  define B where "B = \<lparr>m_shape = m_shape A, m_gpuTensorDescriptor = Created,
                        m_data = m_data A, m_name = m_name A\<rparr>"
  define r2 where "r2 = r1\<lparr>hostData := (hostData r1)[i := v]\<rparr>"
  define h2 where "h2 = h1\<lparr>cells := (cells h1)(a := Some r2)\<rparr>"
  define r3 where "r3 = r2\<lparr>owners := owners r2 - 1\<rparr>"
  define h3 where "h3 = h2\<lparr>cells := (cells h2)(a := Some r3)\<rparr>"
  define r4 where "r4 = r3\<lparr>hostData := (hostData r3)[i := w]\<rparr>"
  define h4 where "h4 = h3\<lparr>cells := (cells h3)(a := Some r4)\<rparr>"
  have B: "m_data B = Some a"
    using assms(1) by (simp add: B_def)
  have c1: "cells h1 a = Some r1" and l1: "i < length (hostData r1)"
    and v1: "hostData r1 ! i = hostData r ! i"
    using assms(4) by (simp_all add: h1_def r1_def)
  have c2: "cells h2 a = Some r2" and l2: "i < length (hostData r2)"
    and v2: "hostData r2 ! i = v" and o2: "\<not> owners r2 \<le> 1"
    using assms(3,4) by (simp_all add: h2_def r2_def r1_def)
  have c3: "cells h3 a = Some r3" and l3: "i < length (hostData r3)"
    and v3: "hostData r3 ! i = v"
    using l2 v2 by (simp_all add: h3_def r3_def)
  have c4: "cells h4 a = Some r4" and l4: "i < length (hostData r4)"
    and v4: "hostData r4 ! i = w"
    using l3 by (simp_all add: h4_def r4_def)
  have "Tensor_copy h A = (h1, B)"
    using assms(1,2) by (simp add: Tensor_copy_def blob_acquire_def h1_def r1_def B_def)
  moreover have "tensor_at h1 B i = Inr (hostData r ! i)"
    using tensor_at_region [OF B c1 l1] v1 by simp
  moreover have "tensor_set h1 A i v = Inr h2"
    using tensor_set_region [OF assms(1) c1 l1] by (simp add: h2_def r2_def)
  moreover have "tensor_at h2 B i = Inr v"
    using tensor_at_region [OF B c2 l2] v2 by simp
  moreover have "clear h2 A = (h3, A\<lparr>m_data := None\<rparr>)"
    using assms(1) c2 o2 by (simp add: clear_def blob_clear_def blob_release_def h3_def r3_def)
  moreover have "m_data (A\<lparr>m_data := None\<rparr>) = None"
    by simp
  moreover have "tensor_at h3 B i = Inr v"
    using tensor_at_region [OF B c3 l3] v3 by simp
  moreover have "tensor_set h3 B i w = Inr h4"
    using tensor_set_region [OF B c3 l3] by (simp add: h4_def r4_def)
  moreover have "tensor_at h4 B i = Inr w"
    using tensor_at_region [OF B c4 l4] v4 by simp
  ultimately show ?thesis
    by blast
qed

theorem copy_shares_storage_witness:
  "\<exists>ok h A h1 B h2 h3 A'.
       init_list CPU_NAIVE 4 (Some (\<lambda>i. 0)) [1, 2 :: int] emptyStore (Tensor_new [2] ''a'')
         = Inr (ok, h, A)
     \<and> ok
     \<and> Tensor_copy h A = (h1, B)
     \<and> tensor_at h1 B 1 = Inr 2
     \<and> tensor_set h1 A 1 7 = Inr h2
     \<and> tensor_at h2 B 1 = Inr 7
     \<and> clear h2 A = (h3, A')
     \<and> m_data A' = None
     \<and> tensor_at h3 B 1 = Inr 7"
proof -
  define r where "r = \<lparr>owners = 1, hostData = [1, 2 :: int], gpuData = None\<rparr>"
  define h where "h = \<lparr>cells = (\<lambda>a. None)(0 := Some r), fresh = Suc 0\<rparr>"
  define A where "A = \<lparr>m_shape = [2], m_gpuTensorDescriptor = Created,
                        m_data = Some 0, m_name = ''a''\<rparr>"
  have i: "init_list CPU_NAIVE 4 (Some (\<lambda>i. 0)) [1, 2 :: int] emptyStore (Tensor_new [2] ''a'')
         = Inr (True, h, A)"
    by (simp add: init_list_def init_def size_of_def Tensor_new_def blob_alloc_def emptyStore_def
        blob_release_def copyToHost_def dataHandle_def h_def r_def A_def upt_rec)
  have a: "m_data A = Some 0" and c: "cells h 0 = Some r" and o: "0 < owners r"
    and l: "1 < length (hostData r)" and v: "hostData r ! 1 = 2"
    by (simp_all add: A_def h_def r_def)
  from copy_shares_storage [OF a c o l, of 7 7]
  obtain h1 B h2 h3 A' where "Tensor_copy h A = (h1, B)"
     "tensor_at h1 B 1 = Inr (hostData r ! 1)"
     "tensor_set h1 A 1 7 = Inr h2"
     "tensor_at h2 B 1 = Inr 7"
     "clear h2 A = (h3, A')"
     "m_data A' = None"
     "tensor_at h3 B 1 = Inr 7"
    by blast
  moreover from this have "tensor_at h1 B 1 = Inr 2"
    using v by simp
  ultimately show ?thesis
    using i by blast
qed

text \<open>
  C5.  After \<^verbatim>\<open>init()\<close> the descriptor of a GPU tensor of shape \<open>(2, 3)\<close> describes the
  shape, and so does the descriptor of a tensor assigned from it and of the tensor
  reshaped to \<open>(3, 2)\<close>; the descriptor of a tensor copy-constructed from it is the one
  the constructor of the base created, which was never set.
\<close>

theorem copy_constructor_leaves_descriptor_unset:
  "case init GPU_CUDA 4 (Some (\<lambda>i. 0 :: int)) emptyStore (Tensor_new [2, 3] ''a'') of
     (ok, h, A) \<Rightarrow>
       ok
     \<and> m_gpuTensorDescriptor A = Described \<lparr>nbDims = 4, dimA = [1, 1, 3, 2], strideA = [2, 2, 2, 1]\<rparr>
     \<and> m_gpuTensorDescriptor (snd (assign GPU_CUDA h (Tensor_new [] ''b'') A))
         = Described \<lparr>nbDims = 4, dimA = [1, 1, 3, 2], strideA = [2, 2, 2, 1]\<rparr>
     \<and> m_gpuTensorDescriptor (snd (reshape GPU_CUDA A [3, 2]))
         = Described \<lparr>nbDims = 4, dimA = [1, 1, 2, 3], strideA = [3, 3, 3, 1]\<rparr>
     \<and> m_shape (snd (Tensor_copy h A)) = [2, 3]
     \<and> m_gpuTensorDescriptor (snd (Tensor_copy h A)) = Created"
proof -
  let ?A = "\<lparr>m_shape = [2, 3],
     m_gpuTensorDescriptor = Described \<lparr>nbDims = 4, dimA = [1, 1, 3, 2], strideA = [2, 2, 2, 1]\<rparr>,
     m_data = Some 0, m_name = ''a''\<rparr>"
  have d: "descriptorArrays [2, 3] = Inr \<lparr>nbDims = 4, dimA = [1, 1, 3, 2], strideA = [2, 2, 2, 1]\<rparr>"
    by code_simp
  have d': "descriptorArrays [3, 2] = Inr \<lparr>nbDims = 4, dimA = [1, 1, 2, 3], strideA = [3, 3, 3, 1]\<rparr>"
    by code_simp
  have "\<exists>h. init GPU_CUDA 4 (Some (\<lambda>i. 0 :: int)) emptyStore (Tensor_new [2, 3] ''a'') = (True, h, ?A)"
    by (simp add: init_def size_of_def Tensor_new_def blob_alloc_def emptyStore_def Let_def
        blob_release_def updateGPUTensorDescriptor_def d)
  then obtain h where i: "init GPU_CUDA 4 (Some (\<lambda>i. 0 :: int)) emptyStore (Tensor_new [2, 3] ''a'') = (True, h, ?A)"
    by blast
  have "m_gpuTensorDescriptor (snd (assign GPU_CUDA h (Tensor_new [] ''b'') ?A))
         = Described \<lparr>nbDims = 4, dimA = [1, 1, 3, 2], strideA = [2, 2, 2, 1]\<rparr>"
    by (simp add: assign_def updateGPUTensorDescriptor_def d)
  moreover have "m_gpuTensorDescriptor (snd (reshape GPU_CUDA ?A [3, 2]))
         = Described \<lparr>nbDims = 4, dimA = [1, 1, 2, 3], strideA = [3, 3, 3, 1]\<rparr>"
    by (simp add: reshape_def size_of_def updateGPUTensorDescriptor_def d')
  moreover have "m_shape (snd (Tensor_copy h ?A)) = [2, 3]"
    "m_gpuTensorDescriptor (snd (Tensor_copy h ?A)) = Created"
    by (simp_all add: Tensor_copy_def)
  ultimately show ?thesis
    unfolding i by simp
qed

lemma Tensor_copy_descriptor:
  "m_gpuTensorDescriptor (snd (Tensor_copy h A)) = Created"
  by (simp add: Tensor_copy_def)

lemma shape_changes_recompute_descriptor:
  "m_gpuTensorDescriptor (snd (assign GPU_CUDA h t A)) =
     (case descriptorArrays (m_shape A) of Inl e \<Rightarrow> Undefined e | Inr d \<Rightarrow> Described d)"
  "fst (reshape GPU_CUDA t s) \<Longrightarrow>
   m_gpuTensorDescriptor (snd (reshape GPU_CUDA t s)) =
     (case descriptorArrays s of Inl e \<Rightarrow> Undefined e | Inr d \<Rightarrow> Described d)"
  by (simp_all add: assign_def reshape_def updateGPUTensorDescriptor_def split: if_splits)

section \<open>Properties of the cross-entropy kernel\<close>

lemma launch_append:
  "launch k (ths @ ths') cost =
     (case launch k ths cost of Inl e \<Rightarrow> Inl e | Inr cost' \<Rightarrow> launch k ths' cost')"
  by (induction ths arbitrary: cost) (auto split: sum.splits)

lemma launch_fails:
  assumes "th \<in> set ths" "\<And>cost. \<exists>e. k th cost = Inl e"
  shows "\<exists>e. launch k ths cost = Inl e"
  using assms(1)
proof (induction ths arbitrary: cost)
  case Nil
  then show ?case by simp
next
  case (Cons a ths)
  show ?case
  proof (cases "k a cost")
    case (Inl e)
    then show ?thesis by simp
  next
    case (Inr cost')
    then have "a \<noteq> th"
      using assms(2) [of cost] by auto
    then have "th \<in> set ths"
      using Cons.prems by simp
    then show ?thesis
      using Cons.IH [of cost'] Inr by simp
  qed
qed

lemma threadsOf_one_block: "threadsOf (Suc 0) n = map (\<lambda>t. (0, of_nat t)) [0..<n]"
  by (simp add: threadsOf_def)

lemma upt_1024: "[0..<1024] = [0, 1, 2, 3] @ [4..<1024]"
proof -
  have "[0..<4 + 1020] = [0..<4] @ [4..<4 + 1020]"
    by (rule upt_add_eq_append) simp
  moreover have "[0..<4] = [0, 1, 2, 3]"
    by (simp add: upt_rec)
  ultimately show ?thesis
    by (simp del: upt_rec_numeral)
qed

lemma threadsOf_1024:
  "threadsOf (Suc 0) 1024 = [(0, 0), (0, 1), (0, 2)] @ (0, 3) # map (\<lambda>t. (0, of_nat t)) [4..<1024]"
  unfolding threadsOf_one_block upt_1024 by (simp del: upt_rec_numeral)

lemma crossEntropy_thread_3:
  "crossEntropy [1 / 2, 1 / 2, 1 / 2] [1, 0, 1] 1 3 1024 (0, 3) cost = Inl (OutOfRange 3 3)"
  by (simp add: crossEntropy_def)

lemma crossEntropyCUDAKernel_example:
  "crossEntropyCUDAKernel order [1 / 2, 1 / 2, 1 / 2] [1, 0, 1] [0, 0, 0] 1 3 =
     launch (crossEntropy [1 / 2, 1 / 2, 1 / 2] [1, 0, 1] 1 3 1024)
       (order (threadsOf (Suc 0) 1024)) [0, 0, 0]"
proof -
  have "replicate 3 (0 :: real) = [0, 0, 0]"
    by (simp add: numeral_3_eq_3)
  then show ?thesis
    by (simp add: crossEntropyCUDAKernel_def gridSizeOf_def cudaMemset_def)
qed

text \<open>
  Whatever the order in which the threads of the launch run, the run for the
  example of the specification ends in an access outside the buffers.
\<close>

lemma crossEntropyCUDAKernel_example_every_schedule:
  assumes "set (order (threadsOf (Suc 0) 1024)) = set (threadsOf (Suc 0) 1024)"
  shows "\<exists>e. crossEntropyCUDAKernel order [1 / 2, 1 / 2, 1 / 2] [1, 0, 1] [0, 0, 0] 1 3 = Inl e"
proof -
  have "(0, 3) \<in> set (threadsOf (Suc 0) 1024)"
    unfolding threadsOf_1024 by (simp del: upt_rec_numeral)
  then have "(0, 3) \<in> set (order (threadsOf (Suc 0) 1024))"
    using assms by simp
  then have "\<exists>e. launch (crossEntropy [1 / 2, 1 / 2, 1 / 2] [1, 0, 1] 1 3 1024)
       (order (threadsOf (Suc 0) 1024)) [0, 0, 0] = Inl e"
    by (rule launch_fails) (simp add: crossEntropy_thread_3)
  then show ?thesis
    unfolding crossEntropyCUDAKernel_example .
qed

text \<open>
  C1.  For the example of the specification (\<open>labelVectorSize = 1\<close>, \<open>batchSize = 3\<close>)
  the sums asked for are \<open>- ln (1/2)\<close> three times; the kernel, its threads run in the
  order of their indices, adds the three terms and then reads \<open>label[3]\<close> in the thread
  3 of the one block of 1024 threads it launches.
\<close>

theorem crossEntropyCUDAKernel_example_out_of_range:
  "map (costOfBatch [1 / 2, 1 / 2, 1 / 2] [1, 0, 1] 1) [0, 1, 2]
     = [- ln (1 / 2), - ln (1 / 2), - ln (1 / 2)]
   \<and> launch (crossEntropy [1 / 2, 1 / 2, 1 / 2] [1, 0, 1] 1 3 1024) [(0, 0), (0, 1), (0, 2)] [0, 0, 0]
     = Inr [- ln (1 / 2), - ln (1 / 2), - ln (1 / 2)]
   \<and> crossEntropyCUDAKernel (\<lambda>ths. ths) [1 / 2, 1 / 2, 1 / 2] [1, 0, 1] [0, 0, 0] 1 3
     = Inl (OutOfRange 3 3)"
proof -
  let ?k = "crossEntropy [1 / 2, 1 / 2, 1 / 2] [1, 0, 1] 1 3 1024"
  have three: "launch ?k [(0, 0), (0, 1), (0, 2)] [0, 0, 0]
      = Inr [- ln (1 / 2), - ln (1 / 2), - ln (1 / 2)]"
    by (simp add: crossEntropy_def)
  have "launch ?k ((0, 3) # map (\<lambda>t. (0, of_nat t)) [4..<1024]) cost = Inl (OutOfRange 3 3)" for cost
    by (simp add: crossEntropy_thread_3 del: upt_rec_numeral)
  then have "launch ?k (threadsOf (Suc 0) 1024) [0, 0, 0] = Inl (OutOfRange 3 3)"
    unfolding threadsOf_1024 launch_append three by simp
  then have "crossEntropyCUDAKernel (\<lambda>ths. ths) [1 / 2, 1 / 2, 1 / 2] [1, 0, 1] [0, 0, 0] 1 3
     = Inl (OutOfRange 3 3)"
    unfolding crossEntropyCUDAKernel_example .
  moreover have "map (costOfBatch [1 / 2, 1 / 2, 1 / 2] [1, 0, 1] 1) [0, 1, 2]
     = [- ln (1 / 2), - ln (1 / 2), - ln (1 / 2)]"
    by (simp add: costOfBatch_def)
  ultimately show ?thesis
    using three by simp
qed

text \<open>
  C3.  For 3 work items the grid is one block, the final chunk is a whole block of 1024
  threads, and its threads 3 and 1023 are among those launched: they read \<open>label[3]\<close>
  and \<open>label[1023]\<close>, outside the buffer of 3 elements, whatever \<open>cost\<close> holds.
\<close>

theorem crossEntropy_partial_chunk_out_of_range:
  "gridSizeOf 1 3 = 1
   \<and> length (threadsOf (unat (gridSizeOf 1 3)) 1024) = 1024
   \<and> (0, 3) \<in> set (threadsOf (unat (gridSizeOf 1 3)) 1024)
   \<and> (0, 1023) \<in> set (threadsOf (unat (gridSizeOf 1 3)) 1024)
   \<and> (\<forall>cost. crossEntropy [1 / 2, 1 / 2, 1 / 2] [1, 0, 1] 1 3 1024 (0, 3) cost
               = Inl (OutOfRange 3 3))
   \<and> (\<forall>cost. crossEntropy [1 / 2, 1 / 2, 1 / 2] [1, 0, 1] 1 3 1024 (0, 1023) cost
               = Inl (OutOfRange 1023 3))"
proof -
  have g: "gridSizeOf 1 3 = 1"
    by (simp add: gridSizeOf_def)
  have u: "unat (1 :: 32 word) = Suc 0"
    by simp
  have l: "length (threadsOf (Suc 0) 1024) = 1024"
    unfolding threadsOf_one_block by (simp del: upt_rec_numeral)
  have "(0 :: 32 word, 3 :: 32 word) = (\<lambda>t. (0, of_nat t)) 3" "(3 :: nat) \<in> set [0..<1024]"
    by (simp_all del: upt_rec_numeral)
  then have a: "(0, 3) \<in> set (threadsOf (Suc 0) 1024)"
    unfolding threadsOf_one_block set_map by (intro image_eqI)
  have "(0 :: 32 word, 1023 :: 32 word) = (\<lambda>t. (0, of_nat t)) 1023" "(1023 :: nat) \<in> set [0..<1024]"
    by (simp_all del: upt_rec_numeral)
  then have b: "(0, 1023) \<in> set (threadsOf (Suc 0) 1024)"
    unfolding threadsOf_one_block set_map by (intro image_eqI)
  have c: "crossEntropy [1 / 2, 1 / 2, 1 / 2] [1, 0, 1] 1 3 1024 (0, 1023) cost
               = Inl (OutOfRange 1023 3)" for cost
    by (simp add: crossEntropy_def)
  show ?thesis
    unfolding g u using l a b c crossEntropy_thread_3 by blast
qed

section \<open>Properties of the gradient check\<close>

text \<open>
  C2.  For the square of \<open>x0\<close> with the gradient \<open>x0\<close> in place of \<open>2 * x0\<close>, at the
  point 3 with the step \<open>1/10000\<close>: the numeric gradient is 6 and the relative error
  is \<open>1/2\<close>, above \<open>epsilon * 0.1\<close>, so the check as specified fails; in the code the
  relative difference is the integer quotient of 3 by 6, which is 0, and
  \<^verbatim>\<open>gradientCheck\<close> returns true.
\<close>

theorem gradientCheck_accepts_wrong_gradient:
  "numericGradient squareWrong [3] (1 / 10000) 0 = 6
   \<and> snd (squareWrong [3]) = [3]
   \<and> relativeError 6 3 = 1 / 2
   \<and> \<not> gradientCheck_spec squareWrong [3] (1 / 10000)
   \<and> reldiffOf 6 3 = Inr 0
   \<and> gradientCheck squareWrong [3] (1 / 10000) = Inr True"
  by (simp add: gradientCheck_spec_def gradientCheck_def squareWrong_def relativeError_def
      numericGradient_def reldiffOf_def c_abs_def power2_eq_square)

text \<open>
  The loop perturbs one coordinate of the point at a time and restores it: with the
  two work vectors equal to \<open>x\<close> at the start of an iteration, the values are those of
  \<open>numericGradient\<close>, and the work vectors are \<open>x\<close> again at the start of the next
  iteration.  So the result is true exactly when every coordinate from \<open>i\<close> on has a
  relative difference, as the code computes it, of at most \<open>epsilon * 0.1\<close>.
\<close>

lemma gradientLoop_step:
  assumes "epsilon \<noteq> 0" "i < length x" "i < length g"
  shows "gradientLoop f x epsilon g i (x, x) =
     (case reldiffOf (numericGradient f x epsilon i) (g ! i) of
        Inl e \<Rightarrow> Inl e
      | Inr reldiff \<Rightarrow>
          if reldiff > epsilon * (1 / 10) then Inr False
          else gradientLoop f x epsilon g (Suc i) (x, x))"
proof -
  have "x[i := x ! i - epsilon, i := x ! i] = x" "x[i := x ! i + epsilon, i := x ! i] = x"
    by simp_all
  then show ?thesis
    using assms
    by (subst gradientLoop.simps) (simp add: Let_def numericGradient_def split: sum.splits)
qed

lemma gradientLoop_true_iff:
  assumes "epsilon \<noteq> 0" "length x \<le> length g"
  shows "gradientLoop f x epsilon g i (x, x) = Inr True \<longleftrightarrow>
     (\<forall>j. i \<le> j \<and> j < length x \<longrightarrow>
        (\<exists>r. reldiffOf (numericGradient f x epsilon j) (g ! j) = Inr r \<and> r \<le> epsilon * (1 / 10)))"
proof (induction "length x - i" arbitrary: i)
  case 0
  then have "\<not> i < length x"
    by simp
  then show ?case
    by (subst gradientLoop.simps) auto
next
  case (Suc n)
  then have i: "i < length x" "i < length g"
    using assms(2) by simp_all
  have IH: "gradientLoop f x epsilon g (Suc i) (x, x) = Inr True \<longleftrightarrow>
     (\<forall>j. Suc i \<le> j \<and> j < length x \<longrightarrow>
        (\<exists>r. reldiffOf (numericGradient f x epsilon j) (g ! j) = Inr r \<and> r \<le> epsilon * (1 / 10)))"
    using Suc by simp
  have split: "(\<forall>j. i \<le> j \<and> j < length x \<longrightarrow> P j) \<longleftrightarrow>
      P i \<and> (\<forall>j. Suc i \<le> j \<and> j < length x \<longrightarrow> P j)" for P
    using i(1) by (metis Suc_leI le_eq_less_or_eq Suc_le_lessD order_refl)
  show ?case
    unfolding split gradientLoop_step [OF assms(1) i] IH [symmetric]
    by (auto split: sum.splits)
qed

lemma gradientCheck_true_iff:
  assumes "epsilon \<noteq> 0" "length x \<le> length (snd (f x))"
  shows "gradientCheck f x epsilon = Inr True \<longleftrightarrow>
     (\<forall>j < length x.
        \<exists>r. reldiffOf (numericGradient f x epsilon j) (snd (f x) ! j) = Inr r \<and> r \<le> epsilon * (1 / 10))"
  unfolding gradientCheck_def gradientLoop_true_iff [OF assms] by simp

section \<open>The kernel on whole and on partial blocks\<close>

lemma sint_small:
  fixes w :: "32 word"
  assumes "unat w < 2 ^ 31"
  shows "sint w = int (unat w)"
proof -
  have "int (unat w) < int (2 ^ 31)"
    using assms by (simp only: of_nat_less_iff)
  then have "uint w < 2 ^ 31"
    by (simp only: of_nat_unat of_nat_power of_nat_numeral)
  moreover have "- (2 ^ 31) \<le> uint w"
    by (rule order_trans [of _ 0]) simp_all
  ultimately have "sint w = uint w"
    by (simp add: sint_uint signed_take_bit_int_eq_self)
  then show ?thesis
    by (simp only: of_nat_unat)
qed

lemma idOf_of_nat:
  assumes "b * 1024 + t < 2 ^ 32"
  shows "idOf (of_nat b, of_nat t) = b * 1024 + t"
proof -
  have "(of_nat b :: 32 word) * 1024 + of_nat t = of_nat (b * 1024 + t)"
    by simp
  then show ?thesis
    using assms by (simp add: idOf_def unat_of_nat del: of_nat_add of_nat_mult)
qed

lemma crossEntropy_by_id:
  assumes "labelSize \<noteq> 0" "idOf th < 2 ^ 31"
  shows "crossEntropy input label labelSize batchSize 1024 th cost =
     (if \<not> idOf th < length label then Inl (OutOfRange (idOf th) (length label))
      else if \<not> idOf th < length input then Inl (OutOfRange (idOf th) (length input))
      else if \<not> idOf th div unat labelSize < length cost
        then Inl (OutOfRange (idOf th div unat labelSize) (length cost))
      else Inr (accumulate input label (unat labelSize) (idOf th) cost))"
proof -
  obtain bi ti where th: "th = (bi, ti)"
    by (cases th) auto
  define w where "w = bi * 1024 + ti"
  have p: "idOf th = unat w"
    by (simp add: idOf_def th w_def)
  have recompose: "w div labelSize * labelSize + w mod labelSize = w"
    by (rule div_mult_mod_eq)
  have d: "unat (w div labelSize) = unat w div unat labelSize"
    by (rule unat_div)
  have "unat w div unat labelSize \<le> unat w"
    by (rule div_le_dividend)
  then have "unat (w div labelSize) < 2 ^ 31"
    using assms(2) unfolding p d by (rule le_less_trans)
  then have s: "sint (w div labelSize) = int (unat w div unat labelSize)"
    using sint_small [of "w div labelSize"] d by simp
  have p': "idOf (bi, ti) = unat w"
    using p th by simp
  show ?thesis
    using assms(1)
    by (simp add: crossEntropy_def th w_def [symmetric] Let_def recompose p' d s accumulate_def termAt_def)
qed


lemma threadsOf_Suc:
  "threadsOf (Suc g) n = threadsOf g n @ map (\<lambda>t. (of_nat g, of_nat t)) [0..<n]"
  by (simp add: threadsOf_def)

lemma idOf_threadsOf:
  assumes "g * 1024 \<le> 2 ^ 32"
  shows "map idOf (threadsOf g 1024) = [0..<g * 1024]"
  using assms
proof (induction g)
  case 0
  then show ?case by (simp add: threadsOf_def)
next
  case (Suc g)
  have "idOf (of_nat g, of_nat t) = g * 1024 + t" if "t \<in> set [0..<1024]" for t
  proof -
    have "g * 1024 + t < 2 ^ 32"
      using that Suc.prems by simp
    then show ?thesis
      by (rule idOf_of_nat)
  qed
  then have "map idOf (map (\<lambda>t. (of_nat g, of_nat t)) [0..<1024]) = map (\<lambda>t. t + g * 1024) [0..<1024]"
    unfolding map_map by (intro map_cong) (simp_all add: add.commute del: upt_rec_numeral)
  also have "\<dots> = [g * 1024..<1024 + g * 1024]"
    by (rule map_add_upt)
  finally have blk: "map idOf (map (\<lambda>t. (of_nat g, of_nat t)) [0..<1024]) = [g * 1024..<1024 + g * 1024]" .
  have "[0..<g * 1024 + 1024] = [0..<g * 1024] @ [g * 1024..<g * 1024 + 1024]"
    by (rule upt_add_eq_append) simp
  then show ?case
    using Suc blk by (simp add: threadsOf_Suc add.commute del: upt_rec_numeral)
qed

lemma length_accumulate: "length (accumulate input label L p cost) = length cost"
  by (simp add: accumulate_def)

lemma launch_accumulates:
  assumes "labelSize \<noteq> 0" "length label = n" "length input = n"
    and "n = unat labelSize * length cost" "n < 2 ^ 31"
    and "\<And>th. th \<in> set sched \<Longrightarrow> idOf th < n"
  shows "launch (crossEntropy input label labelSize batchSize 1024) sched cost =
     Inr (fold (accumulate input label (unat labelSize)) (map idOf sched) cost)"
  using assms(4,6)
proof (induction sched arbitrary: cost)
  case Nil
  then show ?case by simp
next
  case (Cons th sched)
  have p: "idOf th < n"
    using Cons.prems(2) by simp
  then have "idOf th < length cost * unat labelSize"
    using Cons.prems(1) by (simp add: mult.commute)
  then have q: "idOf th div unat labelSize < length cost"
    by (rule less_mult_imp_div_less)
  have "idOf th < 2 ^ 31"
    using p assms(5) by simp
  then have one: "crossEntropy input label labelSize batchSize 1024 th cost =
      Inr (accumulate input label (unat labelSize) (idOf th) cost)"
    using crossEntropy_by_id [OF assms(1), of th input label batchSize cost] p q assms(2,3)
    by simp
  have "launch (crossEntropy input label labelSize batchSize 1024) sched
          (accumulate input label (unat labelSize) (idOf th) cost) =
        Inr (fold (accumulate input label (unat labelSize)) (map idOf sched)
          (accumulate input label (unat labelSize) (idOf th) cost))"
    using Cons.prems by (intro Cons.IH) (simp_all add: length_accumulate)
  then show ?case
    using one by simp
qed

lemma fold_accumulate:
  "length (fold (accumulate input label L) ps cost) = length cost"
  "b < length cost \<Longrightarrow>
   fold (accumulate input label L) ps cost ! b =
     cost ! b + (\<Sum>p\<leftarrow>ps. if p div L = b then termAt input label p else 0)"
proof (induction ps arbitrary: cost)
  case Nil
  {
    case 1
    show ?case by simp
  next
    case 2
    show ?case by simp
  }
next
  case (Cons p ps)
  {
    case 1
    show ?case using Cons.IH(1) [of "accumulate input label L p cost"]
      by (simp add: length_accumulate)
  next
    case 2
    then have "b < length (accumulate input label L p cost)"
      by (simp add: length_accumulate)
    from Cons.IH(2) [OF this] 2 show ?case
      by (simp add: accumulate_def)
  }
qed

lemma sum_of_batch:
  fixes f :: "nat \<Rightarrow> real"
  assumes "b < B" "0 < L"
  shows "(\<Sum>p \<in> {0..<L * B}. if p div L = b then f p else 0) = (\<Sum>j \<in> {0..<L}. f (b * L + j))"
proof -
  have S: "{p \<in> {0..<L * B}. p div L = b} = (\<lambda>j. b * L + j) ` {0..<L}"
  proof (intro set_eqI iffI)
    fix p
    assume "p \<in> {p \<in> {0..<L * B}. p div L = b}"
    then have "p div L = b"
      by simp
    then have "p = b * L + p mod L"
      using div_mult_mod_eq [of p L, symmetric] by simp
    moreover have "p mod L < L"
      using assms(2) by simp
    ultimately have "p = b * L + p mod L" "p mod L < L"
      by blast+
    then show "p \<in> (\<lambda>j. b * L + j) ` {0..<L}"
      by (intro image_eqI [of _ _ "p mod L"]) simp_all
  next
    fix p
    assume "p \<in> (\<lambda>j. b * L + j) ` {0..<L}"
    then obtain j where "p = b * L + j" "j \<in> {0..<L}"
      by blast
    then have j: "p = b * L + j" "j < L"
      by simp_all
    then have "p div L = b"
      by simp
    moreover have "p < L * B"
    proof -
      have "b * L + j < Suc b * L"
        using j by simp
      also have "\<dots> \<le> B * L"
        using assms(1) by (intro mult_le_mono1) simp
      finally show ?thesis
        using j by (simp add: mult.commute)
    qed
    ultimately show "p \<in> {p \<in> {0..<L * B}. p div L = b}"
      by simp
  qed
  have "(\<Sum>p \<in> {0..<L * B}. if p div L = b then f p else 0) = sum f {p \<in> {0..<L * B}. p div L = b}"
    by (rule sum.inter_filter [symmetric]) simp
  also have "\<dots> = (\<Sum>j \<in> {0..<L}. f (b * L + j))"
    unfolding S by (subst sum.reindex) (simp_all add: inj_on_def)
  finally show ?thesis .
qed

lemma costOfBatch_sum:
  "costOfBatch input label L b = (\<Sum>j \<in> {0..<L}. termAt input label (b * L + j))"
  by (simp add: costOfBatch_def termAt_def interv_sum_list_conv_sum_set_nat)

lemma unat_gridSizeOf:
  assumes "unat labelSize * unat batchSize < 2 ^ 31"
  shows "unat (gridSizeOf labelSize batchSize) =
     (if (unat labelSize * unat batchSize) mod 1024 \<noteq> 0
      then unat labelSize * unat batchSize div 1024 + 1
      else unat labelSize * unat batchSize div 1024)"
proof -
  let ?n = "unat labelSize * unat batchSize"
  have "?n < 2 ^ LENGTH(32)"
    using assms by simp
  then have n: "unat (labelSize * batchSize) = ?n"
    by (simp only: unat_mult_lem)
  have k: "unat (1024 :: 32 word) = 1024"
    by simp
  have d: "unat (labelSize * batchSize div 1024) = ?n div 1024"
    by (simp only: unat_div n k)
  have m: "unat (labelSize * batchSize mod 1024) = ?n mod 1024"
    by (simp only: unat_mod n k)
  have z: "(labelSize * batchSize mod 1024 \<noteq> 0) = (?n mod 1024 \<noteq> 0)"
    by (simp only: m [symmetric] unat_eq_0)
  have "?n div 1024 + 1 < 2 ^ LENGTH(32)"
    using assms by simp
  then have "unat (labelSize * batchSize div 1024) + unat (1 :: 32 word) < 2 ^ LENGTH(32)"
    using d by simp
  then have "unat (labelSize * batchSize div 1024 + 1) = ?n div 1024 + 1"
    using d by (simp only: unat_add_lem [THEN iffD1]) simp
  then show ?thesis
    using d z by (simp add: gridSizeOf_def Let_def)
qed

lemma cudaMemset_exact:
  "length cost = n \<Longrightarrow> cudaMemset cost n = Inr (replicate n 0)"
  unfolding cudaMemset_def by auto

text \<open>
  When the number of work items is a multiple of 1024 (and below \<open>2^31\<close>), the launch has
  one thread for each position and no other, and whatever the order of the threads
  the output is, batch by batch, the sum the specification asks for.
\<close>

lemma crossEntropyCUDAKernel_whole_blocks:
  assumes "labelSize \<noteq> 0"
    and "unat labelSize * unat batchSize < 2 ^ 31"
    and "(unat labelSize * unat batchSize) mod 1024 = 0"
    and "length input = unat labelSize * unat batchSize"
    and "length label = unat labelSize * unat batchSize"
    and "length cost = unat batchSize"
    and "distinct (order (threadsOf (unat (gridSizeOf labelSize batchSize)) 1024))"
    and "set (order (threadsOf (unat (gridSizeOf labelSize batchSize)) 1024)) =
         set (threadsOf (unat (gridSizeOf labelSize batchSize)) 1024)"
  shows "crossEntropyCUDAKernel order input label cost labelSize batchSize =
     Inr (map (costOfBatch input label (unat labelSize)) [0..<unat batchSize])"
proof -
  let ?L = "unat labelSize" and ?B = "unat batchSize"
  let ?n = "?L * ?B"
  let ?g = "unat (gridSizeOf labelSize batchSize)"
  let ?ths = "threadsOf ?g 1024"
  let ?sched = "order ?ths"
  let ?ps = "map idOf ?sched"
  have L: "0 < ?L"
    using assms(1) by (simp add: unat_gt_0)
  have g: "?g = ?n div 1024"
    unfolding unat_gridSizeOf [OF assms(2)] assms(3) by simp
  have "?n div 1024 * 1024 + ?n mod 1024 = ?n"
    by (rule div_mult_mod_eq)
  then have gn: "?g * 1024 = ?n"
    unfolding g assms(3) by simp
  then have "?g * 1024 \<le> 2 ^ 32"
    using assms(2) by simp
  then have ids: "map idOf ?ths = [0..<?n]"
    using idOf_threadsOf [of ?g] gn by simp
  then have "distinct (map idOf ?ths)"
    by simp
  then have "inj_on idOf (set ?ths)"
    by (simp add: distinct_map)
  then have dist: "distinct ?ps"
    using assms(7,8) by (simp add: distinct_map)
  have "set ?ps = idOf ` set ?ths"
    using assms(8) by simp
  also have "\<dots> = set (map idOf ?ths)"
    by simp
  finally have setps: "set ?ps = {0..<?n}"
    unfolding ids by simp
  have below: "idOf th < ?n" if "th \<in> set ?sched" for th
  proof -
    have "idOf th \<in> set ?ps"
      using that by simp
    then show ?thesis
      unfolding setps by simp
  qed
  have k: "unat (1024 :: 32 word) = 1024"
    by simp
  have len0: "length (replicate ?B (0 :: real)) = ?B"
    by simp
  have "?n = ?L * length (replicate ?B (0 :: real))"
    by simp
  with assms(1) assms(5) assms(4)
  have "launch (crossEntropy input label labelSize batchSize 1024) ?sched (replicate ?B 0) =
      Inr (fold (accumulate input label ?L) ?ps (replicate ?B 0))"
    using assms(2) below by (rule launch_accumulates)
  then have run: "crossEntropyCUDAKernel order input label cost labelSize batchSize =
      Inr (fold (accumulate input label ?L) ?ps (replicate ?B 0))"
    unfolding crossEntropyCUDAKernel_def Let_def k cudaMemset_exact [OF assms(6)] by simp
  have "fold (accumulate input label ?L) ?ps (replicate ?B 0) =
        map (costOfBatch input label ?L) [0..<?B]"
  proof (rule nth_equalityI)
    show "length (fold (accumulate input label ?L) ?ps (replicate ?B 0)) =
          length (map (costOfBatch input label ?L) [0..<?B])"
      by (simp add: fold_accumulate(1))
  next
    fix b
    assume "b < length (fold (accumulate input label ?L) ?ps (replicate ?B 0))"
    then have b: "b < ?B"
      by (simp add: fold_accumulate(1))
    have "fold (accumulate input label ?L) ?ps (replicate ?B 0) ! b =
          (\<Sum>p\<leftarrow>?ps. if p div ?L = b then termAt input label p else 0)"
      using fold_accumulate(2) [of b "replicate ?B 0" input label ?L ?ps] b by simp
    also have "\<dots> = (\<Sum>p \<in> {0..<?n}. if p div ?L = b then termAt input label p else 0)"
      using sum_list_distinct_conv_sum_set [OF dist] setps by simp
    also have "\<dots> = costOfBatch input label ?L b"
      unfolding costOfBatch_sum by (rule sum_of_batch [OF b L])
    finally show "fold (accumulate input label ?L) ?ps (replicate ?B 0) ! b =
          map (costOfBatch input label ?L) [0..<?B] ! b"
      using b by simp
  qed
  then show ?thesis
    using run by simp
qed

text \<open>
  When the number of work items is not a multiple of 1024, the launch has a thread of
  index \<open>labelSize * batchSize\<close>, which reads outside \<open>label\<close>: whatever the order of the
  threads, the run ends in an error.
\<close>

lemma crossEntropyCUDAKernel_partial_block:
  assumes "labelSize \<noteq> 0"
    and "unat labelSize * unat batchSize < 2 ^ 31"
    and "(unat labelSize * unat batchSize) mod 1024 \<noteq> 0"
    and "length label = unat labelSize * unat batchSize"
    and "set (order (threadsOf (unat (gridSizeOf labelSize batchSize)) 1024)) =
         set (threadsOf (unat (gridSizeOf labelSize batchSize)) 1024)"
  shows "\<exists>e. crossEntropyCUDAKernel order input label cost labelSize batchSize = Inl e"
proof -
  let ?n = "unat labelSize * unat batchSize"
  let ?g = "unat (gridSizeOf labelSize batchSize)"
  let ?ths = "threadsOf ?g 1024"
  have g: "?g = ?n div 1024 + 1"
    using unat_gridSizeOf [OF assms(2)] assms(3) by simp
  then have "?g * 1024 \<le> 2 ^ 32" and inside: "?n < ?g * 1024"
    using assms(2) by simp_all
  then have ids: "map idOf ?ths = [0..<?g * 1024]"
    using idOf_threadsOf [of ?g] by simp
  have "?n \<in> set (map idOf ?ths)"
    unfolding ids using inside by simp
  then obtain th where th: "th \<in> set ?ths" "idOf th = ?n"
    by auto
  have fails: "\<exists>e. crossEntropy input label labelSize batchSize 1024 th c = Inl e" for c
    using crossEntropy_by_id [OF assms(1), of th input label batchSize c] th(2) assms(2,4)
    by simp
  have k: "unat (1024 :: 32 word) = 1024"
    by simp
  show ?thesis
  proof (cases "cudaMemset cost (unat batchSize)")
    case (Inl e)
    then show ?thesis
      by (simp add: crossEntropyCUDAKernel_def)
  next
    case (Inr cost0)
    have "th \<in> set (order ?ths)"
      using th(1) assms(5) by simp
    then have "\<exists>e. launch (crossEntropy input label labelSize batchSize 1024) (order ?ths) cost0 = Inl e"
      using fails by (rule launch_fails)
    then show ?thesis
      using Inr by (simp add: crossEntropyCUDAKernel_def Let_def k)
  qed
qed

end
